theory Spec2Isabelle
  imports Main "HOL-Library.Word"
begin

section \<open>Global numbering of the hierarchical tensor basis (gsHTensorBasis.h)\<close>

text \<open>
  The C++ type \<^verbatim>\<open>unsigned\<close> is a 32-bit word; \<^verbatim>\<open>CMatrix\<close> is
  \<^verbatim>\<open>gsSortedVector<unsigned>\<close>, a \<^verbatim>\<open>std::vector<unsigned>\<close>.
  The two members of the class that the index queries read are kept in a record; the
  queries are defined for every record that has these two fields.
\<close>

type_synonym unsigned = "32 word"
type_synonym CMatrix = "unsigned list"

record numbering =
  m_xmatrix :: "CMatrix list"
  m_xmatrix_offset :: "unsigned list"

text \<open>
  Outcomes that are not a returned value: a failed \<^verbatim>\<open>GISMO_ASSERT\<close> (with its message),
  and an unchecked \<^verbatim>\<open>operator[]\<close> of a vector past its end, which the C++ code does not
  detect.
\<close>

datatype error = AssertFailed string | OutOfRange

text \<open>\<^verbatim>\<open>v[k]\<close> for a \<^verbatim>\<open>size_t\<close> index, and for an \<^verbatim>\<open>int\<close> index (a negative
  \<^verbatim>\<open>int\<close> converts to a huge \<^verbatim>\<open>size_t\<close>, past the end of any vector).\<close>

definition at_vec :: "'a list \<Rightarrow> nat \<Rightarrow> error + 'a" where
  "at_vec v k = (if k < length v then Inr (v ! k) else Inl OutOfRange)"

definition at_int :: "'a list \<Rightarrow> int \<Rightarrow> error + 'a" where
  "at_int v k = (if 0 \<le> k then at_vec v (nat k) else Inl OutOfRange)"

text \<open>
  \<^verbatim>\<open>std::upper_bound(first, last, val)\<close> as the standard library implements it: a binary
  search that halves the remaining length; \<open>first\<close> is the position of the iterator in
  the vector. Called on a whole vector it reads only positions inside the vector, since
  \<open>middle < first + len\<close> and \<open>first + len\<close> never exceeds the length.
\<close>

function upper_bound_loop :: "unsigned list \<Rightarrow> unsigned \<Rightarrow> nat \<Rightarrow> nat \<Rightarrow> nat" where
  "upper_bound_loop v val first len =
     (if len = 0 then first
      else let half = len div 2; middle = first + half
           in if val < v ! middle then upper_bound_loop v val first half
              else upper_bound_loop v val (middle + 1) (len - half - 1))"
  by pat_completeness auto
termination
  by (relation "measure (\<lambda>(v, val, first, len). len)") auto

declare upper_bound_loop.simps [simp del]

definition upper_bound :: "unsigned list \<Rightarrow> unsigned \<Rightarrow> nat" where
  "upper_bound v val = upper_bound_loop v val 0 (length v)"

text \<open>
  \<^verbatim>\<open>levelOf\<close>: the iterator difference minus one, narrowed from \<^verbatim>\<open>ptrdiff_t\<close> to the
  32-bit \<^verbatim>\<open>int\<close> the function returns.
\<close>

definition levelOf :: "'z numbering_scheme \<Rightarrow> unsigned \<Rightarrow> int" where
  "levelOf b i = sint (word_of_nat (upper_bound (m_xmatrix_offset b) i) - 1 :: 32 word)"

text \<open>The one-argument \<^verbatim>\<open>flatTensorIndexOf(i)\<close>; \<open>i - offset\<close> is unsigned subtraction.\<close>

definition flatTensorIndexOf :: "'z numbering_scheme \<Rightarrow> unsigned \<Rightarrow> error + unsigned" where
  "flatTensorIndexOf b i =
     (let level = levelOf b i in
      case at_int (m_xmatrix_offset b) level of
        Inl e \<Rightarrow> Inl e
      | Inr offset \<Rightarrow>
          (case at_int (m_xmatrix b) level of
             Inl e \<Rightarrow> Inl e
           | Inr cm \<Rightarrow> at_vec cm (unat (i - offset))))"

text \<open>The two-argument \<^verbatim>\<open>flatTensorIndexOf(i, level)\<close>, with an \<^verbatim>\<open>unsigned\<close> level.\<close>

definition flatTensorIndexOf_level :: "'z numbering_scheme \<Rightarrow> unsigned \<Rightarrow> unsigned \<Rightarrow> error + unsigned" where
  "flatTensorIndexOf_level b i level =
     (case at_vec (m_xmatrix_offset b) (unat level) of
        Inl e \<Rightarrow> Inl e
      | Inr offset \<Rightarrow>
          (case at_vec (m_xmatrix b) (unat level) of
             Inl e \<Rightarrow> Inl e
           | Inr cm \<Rightarrow> at_vec cm (unat (i - offset))))"

text \<open>
  The offset table as the class documents it: one entry per level plus a final one,
  entry \<open>l\<close> being the number of functions selected from the levels below \<open>l\<close>. The
  entries are the true sums, so they fit into \<^verbatim>\<open>unsigned\<close>.
\<close>

definition prefix_sums :: "nat list \<Rightarrow> nat list" where
  "prefix_sums ns = map (\<lambda>l. sum_list (take l ns)) [0..<length ns + 1]"

definition offsets_ok :: "'z numbering_scheme \<Rightarrow> bool" where
  "offsets_ok b \<longleftrightarrow>
     map unat (m_xmatrix_offset b) = prefix_sums (map length (m_xmatrix b))"

text \<open>Modelled from the spec: \<^verbatim>\<open>size()\<close> is only declared in the header; the spec gives it
  as the entry of the offset table after the last level.\<close>

definition size_htb :: "'z numbering_scheme \<Rightarrow> error + unsigned" where
  "size_htb b = at_vec (m_xmatrix_offset b) (length (m_xmatrix b))"

definition example_numbering :: numbering where
  "example_numbering =
     \<lparr>m_xmatrix = [[1, 2, 3], [], [0, 4]], m_xmatrix_offset = [0, 3, 3, 5]\<rparr>"

section \<open>Difference between two knot vectors (differenceBetweenKnotVectors)\<close>

text \<open>
  Modelled from the spec: the class \<^verbatim>\<open>gsCompactKnotVector<T>\<close> belongs to the external
  knot-vector component and is not among the sources. It is used here through two
  accessors only:
  \<^verbatim>\<open>uValue(i)\<close>, the \<open>i\<close>-th unique knot value, and \<^verbatim>\<open>u_multiplicityIndex(i)\<close>, its
  multiplicity. A compact knot vector is therefore the list of its unique knots, each with
  its multiplicity; an index past the last unique knot is an unchecked read. The knot type
  \<open>T\<close> is a type parameter; the function only copies and compares knots.
\<close>

type_synonym 'a gsCompactKnotVector = "('a \<times> unsigned) list"

definition uValue :: "'a gsCompactKnotVector \<Rightarrow> unsigned \<Rightarrow> error + 'a" where
  "uValue kv i = (case at_vec kv (unat i) of Inl e \<Rightarrow> Inl e | Inr p \<Rightarrow> Inr (fst p))"

definition u_multiplicityIndex :: "'a gsCompactKnotVector \<Rightarrow> unsigned \<Rightarrow> error + unsigned" where
  "u_multiplicityIndex kv i = (case at_vec kv (unat i) of Inl e \<Rightarrow> Inl e | Inr p \<Rightarrow> Inr (snd p))"

text \<open>
  The \<^verbatim>\<open>while (f_index <= f_high)\<close> loop. All indices and multiplicities are
  \<^verbatim>\<open>unsigned\<close>, so \<^verbatim>\<open>++f_index\<close> wraps around; the result is \<open>None\<close> when the
  loop does not end. The inner \<^verbatim>\<open>for\<close> loops push the same knot a number of times.
\<close>

partial_function (option) difference_loop ::
  "'a gsCompactKnotVector \<Rightarrow> 'a gsCompactKnotVector \<Rightarrow> unsigned \<Rightarrow> unsigned \<Rightarrow> unsigned \<Rightarrow>
     'a list \<Rightarrow> (error + 'a list) option" where
  "difference_loop ckv fkv f_high c_index f_index knots =
     (if f_index \<le> f_high then
        (case uValue fkv f_index of
           Inl e \<Rightarrow> Some (Inl e)
         | Inr f_knot \<Rightarrow>
        (case uValue ckv c_index of
           Inl e \<Rightarrow> Some (Inl e)
         | Inr c_knot \<Rightarrow>
        (case u_multiplicityIndex fkv f_index of
           Inl e \<Rightarrow> Some (Inl e)
         | Inr f_knot_mltpl \<Rightarrow>
             if f_knot = c_knot then
               (case u_multiplicityIndex ckv c_index of
                  Inl e \<Rightarrow> Some (Inl e)
                | Inr c_knot_mltpl \<Rightarrow>
                    difference_loop ckv fkv f_high (c_index + 1) (f_index + 1)
                      (if c_knot_mltpl < f_knot_mltpl
                       then knots @ replicate (unat (f_knot_mltpl - c_knot_mltpl)) f_knot
                       else knots))
             else
               difference_loop ckv fkv f_high c_index (f_index + 1)
                 (knots @ replicate (unat f_knot_mltpl) f_knot))))
      else Some (Inr knots))"

declare difference_loop.simps [code]

text \<open>The function itself: \<^verbatim>\<open>c_high\<close> is a parameter that the body never reads.\<close>

definition differenceBetweenKnotVectors ::
  "'a gsCompactKnotVector \<Rightarrow> unsigned \<Rightarrow> unsigned \<Rightarrow> 'a gsCompactKnotVector \<Rightarrow> unsigned \<Rightarrow> unsigned \<Rightarrow>
     'a list \<Rightarrow> (error + 'a list) option" where
  "differenceBetweenKnotVectors ckv c_low c_high fkv f_low f_high knots =
     difference_loop ckv fkv f_high c_low f_low knots"

text \<open>
  What the specification says the function appends, written after its words: the fine
  knots with unique-value index in \<open>[f_low, f_high]\<close>, in order, each as many times as its
  multiplicity in the fine vector exceeds its multiplicity in the coarse vector, which is
  0 for a knot that the coarse vector does not have.
\<close>

definition knot_multiplicity :: "'a gsCompactKnotVector \<Rightarrow> 'a \<Rightarrow> nat" where
  "knot_multiplicity kv v = (case map_of kv v of None \<Rightarrow> 0 | Some m \<Rightarrow> unat m)"

definition knot_range :: "'a gsCompactKnotVector \<Rightarrow> unsigned \<Rightarrow> unsigned \<Rightarrow> 'a gsCompactKnotVector" where
  "knot_range kv low high = take (unat high + 1 - unat low) (drop (unat low) kv)"

definition specified_difference ::
  "'a gsCompactKnotVector \<Rightarrow> 'a gsCompactKnotVector \<Rightarrow> unsigned \<Rightarrow> unsigned \<Rightarrow> 'a list" where
  "specified_difference ckv fkv f_low f_high =
     concat (map (\<lambda>(v, m). replicate (unat m - knot_multiplicity ckv v) v)
                 (knot_range fkv f_low f_high))"

text \<open>Knot vectors list their unique knots in strictly increasing order.\<close>

definition knots_ok :: "('a :: linorder) gsCompactKnotVector \<Rightarrow> bool" where
  "knots_ok kv \<longleftrightarrow> sorted_wrt (<) (map fst kv) \<and> length kv < 2 ^ 32"

text \<open>
  The precondition under which the function is called: the coarse knots of the inspected
  range are knots of the fine range, and the two ranges begin and end at the same knot.
\<close>

definition aligned_ranges ::
  "('a :: linorder) gsCompactKnotVector \<Rightarrow> unsigned \<Rightarrow> unsigned \<Rightarrow> 'a gsCompactKnotVector \<Rightarrow> unsigned \<Rightarrow> unsigned \<Rightarrow> bool" where
  "aligned_ranges ckv c_low c_high fkv f_low f_high \<longleftrightarrow>
     c_low \<le> c_high \<and> unat c_high < length ckv \<and>
     f_low \<le> f_high \<and> unat f_high < length fkv \<and>
     fst ` set (knot_range ckv c_low c_high) \<subseteq> fst ` set (knot_range fkv f_low f_high) \<and>
     fst (ckv ! unat c_low) = fst (fkv ! unat f_low) \<and>
     fst (ckv ! unat c_high) = fst (fkv ! unat f_high)"

text \<open>Example knot vectors: a coarse one with knots 0, 2, 4 and its refinement.\<close>

definition example_ckv :: "int gsCompactKnotVector" where
  "example_ckv = [(0, 3), (2, 1), (4, 3)]"

definition example_fkv :: "int gsCompactKnotVector" where
  "example_fkv = [(0, 3), (1, 1), (2, 2), (3, 1), (4, 3)]"

section \<open>The constructors of gsHTensorBasis\<close>

text \<open>
  Modelled from the spec: the macro \<^verbatim>\<open>GISMO_ASSERT\<close> is defined outside the sources. By the
  specification a violated assertion is fatal: it aborts at the call that detected it,
  with the message given.
\<close>

definition GISMO_ASSERT :: "bool \<Rightarrow> string \<Rightarrow> error + unit" where
  "GISMO_ASSERT cond msg = (if cond then Inr () else Inl (AssertFailed msg))"

text \<open>
  The constructors call member functions whose bodies are not among the sources, and the
  domain tree and the per-level bases, which are other classes. These are parameters of
  the model, over a type \<open>'h\<close> of objects under construction:
  \<^verbatim>\<open>initialize_class(tbasis)\<close>, \<^verbatim>\<open>update_structure()\<close>, \<^verbatim>\<open>insert_box(k1, k2, lvl)\<close>,
  \<^verbatim>\<open>needLevel(l)\<close>, \<^verbatim>\<open>m_tree.insertBox(k1, k2, lvl)\<close>, \<^verbatim>\<open>m_tree.query3(k1, k2, lvl)\<close>,
  \<^verbatim>\<open>m_bases.size()\<close>, and \<^verbatim>\<open>m_bases[l]->knots(j).Uniquefindspan(x)\<close> for a level \<open>l\<close>, a
  direction \<open>j\<close> and a coordinate \<open>x\<close>.
\<close>

record ('tb, 'h, 't) members =
  call_initialize_class :: "'tb \<Rightarrow> 'h"
  call_update_structure :: "'h \<Rightarrow> 'h"
  call_insert_box :: "unsigned list \<Rightarrow> unsigned list \<Rightarrow> int \<Rightarrow> 'h \<Rightarrow> 'h"
  call_needLevel :: "int \<Rightarrow> 'h \<Rightarrow> 'h"
  call_tree_insertBox :: "unsigned list \<Rightarrow> unsigned list \<Rightarrow> unsigned \<Rightarrow> 'h \<Rightarrow> 'h"
  call_query3 :: "'h \<Rightarrow> unsigned list \<Rightarrow> unsigned list \<Rightarrow> int \<Rightarrow> int"
  call_bases_size :: "'h \<Rightarrow> nat"
  call_Uniquefindspan :: "'h \<Rightarrow> nat \<Rightarrow> nat \<Rightarrow> 't \<Rightarrow> unsigned"

text \<open>A \<^verbatim>\<open>gsMatrix<T>\<close> of boxes: its numbers of rows and columns and its coefficients
  \<^verbatim>\<open>boxes(j, c)\<close>.\<close>

record 't gsMatrix =
  rows :: nat
  cols :: nat
  coeff :: "nat \<Rightarrow> nat \<Rightarrow> 't"

text \<open>\<^verbatim>\<open>gsHTensorBasis(tbasis, nlevels)\<close>.\<close>

definition ctor_plain :: "('tb, 'h, 't) members \<Rightarrow> 'tb \<Rightarrow> int \<Rightarrow> error + 'h" where
  "ctor_plain M tbasis nlevels =
     (case GISMO_ASSERT (0 < nlevels) ''Invalid number of levels.'' of
        Inl e \<Rightarrow> Inl e
      | Inr _ \<Rightarrow> Inr (call_update_structure M (call_initialize_class M tbasis)))"

text \<open>
  \<^verbatim>\<open>gsHTensorBasis(tbasis, nlevels, std::vector<unsigned> boxes)\<close>: every box is
  \<open>2d + 1\<close> entries, the level and the two corners. The loop runs over the complete
  boxes, so every index it uses is inside the vector. The level is converted from
  \<^verbatim>\<open>unsigned\<close> to the \<^verbatim>\<open>int\<close> that \<^verbatim>\<open>insert_box\<close> takes.
\<close>

definition flat_box_iteration ::
  "('tb, 'h, 't) members \<Rightarrow> nat \<Rightarrow> unsigned list \<Rightarrow> nat \<Rightarrow> 'h \<Rightarrow> 'h" where
  "flat_box_iteration M d boxes i h =
     (let i1 = map (\<lambda>j. boxes ! ((2 * d + 1) * i + j + 1)) [0..<d];
          i2 = map (\<lambda>j. boxes ! ((2 * d + 1) * i + j + d + 1)) [0..<d]
      in call_insert_box M i1 i2 (sint (boxes ! (i * (2 * d + 1)))) h)"

definition ctor_flat :: "('tb, 'h, 't) members \<Rightarrow> nat \<Rightarrow> 'tb \<Rightarrow> int \<Rightarrow> unsigned list \<Rightarrow> error + 'h" where
  "ctor_flat M d tbasis nlevels boxes =
     (case GISMO_ASSERT (0 < nlevels) ''Invalid number of levels.'' of
        Inl e \<Rightarrow> Inl e
      | Inr _ \<Rightarrow>
          (let h = call_initialize_class M tbasis in
           case GISMO_ASSERT (length boxes mod (2 * d + 1) = 0)
                  ''The points did not define boxes properly. The basis was created without any domain structure.'' of
             Inl e \<Rightarrow> Inl e
           | Inr _ \<Rightarrow>
               Inr (call_update_structure M
                      (fold (flat_box_iteration M d boxes) [0..<length boxes div (2 * d + 1)] h))))"

text \<open>
  \<^verbatim>\<open>gsHTensorBasis(tbasis, nlevels, gsMatrix<T> boxes)\<close>: the boxes are pairs of columns of
  physical coordinates. \<open>spans\<close> is the inner loop over the directions,
  \<^verbatim>\<open>m_bases[l]->knots(j).Uniquefindspan(boxes(j, c))\<close>; the upper corner is one more, in
  \<^verbatim>\<open>unsigned\<close> arithmetic. \<^verbatim>\<open>m_bases.back()\<close> and \<^verbatim>\<open>m_bases[level+1]\<close> are unchecked
  vector accesses.
\<close>

definition spans :: "('tb, 'h, 't) members \<Rightarrow> nat \<Rightarrow> 't gsMatrix \<Rightarrow> 'h \<Rightarrow> nat \<Rightarrow> nat \<Rightarrow> unsigned list" where
  "spans M d boxes h l c = map (\<lambda>j. call_Uniquefindspan M h l j (coeff boxes j c)) [0..<d]"

definition box_iteration ::
  "('tb, 'h, 't) members \<Rightarrow> nat \<Rightarrow> 't gsMatrix \<Rightarrow> nat \<Rightarrow> 'h \<Rightarrow> error + 'h" where
  "box_iteration M d boxes i h =
     (if call_bases_size M h = 0 then Inl OutOfRange
      else
        let back = call_bases_size M h - 1;
            k1 = spans M d boxes h back (2 * i);
            k2 = map (\<lambda>k. k + 1) (spans M d boxes h back (2 * i + 1));
            level = call_query3 M h k1 k2 (int (call_bases_size M h) - 1)
        in if level + 1 < 0 \<or> int (call_bases_size M h) \<le> level + 1 then Inl OutOfRange
           else
             let k1 = spans M d boxes h (nat (level + 1)) (2 * i);
                 k2 = map (\<lambda>k. k + 1) (spans M d boxes h (nat (level + 1)) (2 * i + 1))
             in Inr (call_update_structure M (call_insert_box M k1 k2 (level + 1) h)))"

fun box_loop :: "('h \<Rightarrow> error + 'h) list \<Rightarrow> 'h \<Rightarrow> error + 'h" where
  "box_loop [] h = Inr h"
| "box_loop (step # steps) h = (case step h of Inl e \<Rightarrow> Inl e | Inr h' \<Rightarrow> box_loop steps h')"

definition ctor_boxes :: "('tb, 'h, 't) members \<Rightarrow> nat \<Rightarrow> 'tb \<Rightarrow> int \<Rightarrow> 't gsMatrix \<Rightarrow> error + 'h" where
  "ctor_boxes M d tbasis nlevels boxes =
     (case GISMO_ASSERT (rows boxes = d) ''Points in boxes need to be of dimension d.'' of
        Inl e \<Rightarrow> Inl e
      | Inr _ \<Rightarrow>
     (case GISMO_ASSERT (cols boxes mod 2 = 0) ''Each box needs two corners but you don't provied gsHTensorBasis constructor with them.'' of
        Inl e \<Rightarrow> Inl e
      | Inr _ \<Rightarrow>
     (case GISMO_ASSERT (0 < nlevels) ''Invalid number of levels.'' of
        Inl e \<Rightarrow> Inl e
      | Inr _ \<Rightarrow>
          box_loop (map (box_iteration M d boxes) [0..<cols boxes div 2])
            (call_initialize_class M tbasis))))"

text \<open>
  \<^verbatim>\<open>gsHTensorBasis(tbasis, nlevels, gsMatrix<T> boxes, std::vector<unsigned> levels)\<close>.
  The body does not mention \<^verbatim>\<open>nlevels\<close>. \<^verbatim>\<open>*std::max_element\<close> of an empty vector and
  \<^verbatim>\<open>m_bases[levels[i]]\<close> are unchecked accesses; \<^verbatim>\<open>levels[i]\<close> is inside the vector by the
  third assertion.
\<close>

definition level_iteration ::
  "('tb, 'h, 't) members \<Rightarrow> nat \<Rightarrow> 't gsMatrix \<Rightarrow> unsigned list \<Rightarrow> nat \<Rightarrow> 'h \<Rightarrow> error + 'h" where
  "level_iteration M d boxes levels i h =
     (if call_bases_size M h \<le> unat (levels ! i) then Inl OutOfRange
      else
        let k1 = spans M d boxes h (unat (levels ! i)) (2 * i);
            k2 = map (\<lambda>k. k + 1) (spans M d boxes h (unat (levels ! i)) (2 * i + 1))
        in Inr (call_update_structure M (call_tree_insertBox M k1 k2 (levels ! i) h)))"

definition ctor_levels ::
  "('tb, 'h, 't) members \<Rightarrow> nat \<Rightarrow> 'tb \<Rightarrow> int \<Rightarrow> 't gsMatrix \<Rightarrow> unsigned list \<Rightarrow> error + 'h" where
  "ctor_levels M d tbasis nlevels boxes levels =
     (case GISMO_ASSERT (rows boxes = d) ''Points in boxes need to be of dimension d.'' of
        Inl e \<Rightarrow> Inl e
      | Inr _ \<Rightarrow>
     (case GISMO_ASSERT (cols boxes mod 2 = 0) ''Each box needs two corners but you don't provied gsHTensorBasis constructor with them.'' of
        Inl e \<Rightarrow> Inl e
      | Inr _ \<Rightarrow>
     (case GISMO_ASSERT (cols boxes div 2 \<le> length levels) ''We don't have enough levels for the boxes.'' of
        Inl e \<Rightarrow> Inl e
      | Inr _ \<Rightarrow>
          (if levels = [] then Inl OutOfRange
           else
             box_loop (map (level_iteration M d boxes levels) [0..<cols boxes div 2])
               (call_needLevel M (sint (Max (set levels))) (call_initialize_class M tbasis))))))"

text \<open>
  The objects through which the loop of the third constructor passes: the object after
  \<^verbatim>\<open>initialize_class\<close> and the object after each iteration, as far as the loop gets.
\<close>

fun loop_states :: "('h \<Rightarrow> error + 'h) list \<Rightarrow> 'h \<Rightarrow> 'h list" where
  "loop_states [] h = [h]"
| "loop_states (step # steps) h =
     h # (case step h of Inl e \<Rightarrow> [] | Inr h' \<Rightarrow> loop_states steps h')"

definition ctor_boxes_states :: "('tb, 'h, 't) members \<Rightarrow> nat \<Rightarrow> 'tb \<Rightarrow> 't gsMatrix \<Rightarrow> 'h list" where
  "ctor_boxes_states M d tbasis boxes =
     loop_states (map (box_iteration M d boxes) [0..<cols boxes div 2])
       (call_initialize_class M tbasis)"

text \<open>
  The insertion of box \<open>i\<close> into the object \<open>h\<close> in the words of the specification, to
  compare the loop body with: \<open>query_level\<close> is the level found by \<^verbatim>\<open>query3\<close> for the corners
  of the box in the index space of the finest instantiated level (the value of the
  variable \<^verbatim>\<open>level\<close> of the loop body), and \<open>inserted_one_finer\<close> is the insertion one level
  finer, with the corners in the index space of that finer level, followed by the structure
  update.
\<close>

definition query_level :: "('tb, 'h, 't) members \<Rightarrow> nat \<Rightarrow> 't gsMatrix \<Rightarrow> nat \<Rightarrow> 'h \<Rightarrow> int" where
  "query_level M d boxes i h =
     call_query3 M h
       (spans M d boxes h (call_bases_size M h - 1) (2 * i))
       (map (\<lambda>k. k + 1) (spans M d boxes h (call_bases_size M h - 1) (2 * i + 1)))
       (int (call_bases_size M h) - 1)"

definition inserted_one_finer :: "('tb, 'h, 't) members \<Rightarrow> nat \<Rightarrow> 't gsMatrix \<Rightarrow> nat \<Rightarrow> 'h \<Rightarrow> 'h" where
  "inserted_one_finer M d boxes i h =
     call_update_structure M
       (call_insert_box M
          (spans M d boxes h (nat (query_level M d boxes i h + 1)) (2 * i))
          (map (\<lambda>k. k + 1) (spans M d boxes h (nat (query_level M d boxes i h + 1)) (2 * i + 1)))
          (query_level M d boxes i h + 1) h)"

text \<open>
  Stand-ins for the collaborators, to run the constructors on examples: an object is the
  number of instantiated levels with the list of the boxes inserted so far; there are
  three levels at first; \<^verbatim>\<open>query3\<close> answers with the highest level inserted so far; the
  knots of level \<open>l\<close> are the multiples of \<open>1 / 2 ^ l\<close>, coordinates being natural numbers.
\<close>

type_synonym toy = "nat \<times> (unsigned list \<times> unsigned list \<times> int) list"

definition toy_members :: "(unit, toy, nat) members" where
  "toy_members =
     \<lparr>call_initialize_class = (\<lambda>tb. (3, [])),
      call_update_structure = (\<lambda>h. h),
      call_insert_box = (\<lambda>k1 k2 lvl h. (max (fst h) (nat lvl + 1), snd h @ [(k1, k2, lvl)])),
      call_needLevel = (\<lambda>l h. (max (fst h) (nat l + 1), snd h)),
      call_tree_insertBox = (\<lambda>k1 k2 lvl h. (fst h, snd h @ [(k1, k2, uint lvl)])),
      call_query3 = (\<lambda>h k1 k2 lvl. fold max (map (\<lambda>b. snd (snd b)) (snd h)) 0),
      call_bases_size = fst,
      call_Uniquefindspan = (\<lambda>h l j x. word_of_nat (x * 2 ^ l))\<rparr>"

definition toy_boxes :: "nat gsMatrix" where
  "toy_boxes = \<lparr>rows = 1, cols = 4, coeff = (\<lambda>j c. [1, 2, 0, 1] ! c)\<rparr>"

text \<open>Three boxes in one direction, each inside the one before: \<open>[0, 4]\<close>, \<open>[1, 3]\<close> and
  \<open>[1, 2]\<close>.\<close>

definition toy_nested_boxes :: "nat gsMatrix" where
  "toy_nested_boxes = \<lparr>rows = 1, cols = 6, coeff = (\<lambda>j c. [0, 4, 1, 3, 1, 2] ! c)\<rparr>"

section \<open>Levels, domain tree and structure update (gsHTensorBasis.hpp, gsHDomain.h)\<close>

text \<open>
  The header declares \<^verbatim>\<open>needLevel\<close>, \<^verbatim>\<open>createMoreLevels\<close>, \<^verbatim>\<open>insert_box\<close>,
  \<^verbatim>\<open>update_structure\<close> and \<^verbatim>\<open>refineElements\<close>; their bodies and the class
  \<^verbatim>\<open>gsHDomain\<close> are in files that are not among the sources. This section models them
  from the specification.
\<close>

subsection \<open>The tensor basis of a level\<close>

text \<open>
  Modelled from the spec: the tensor-product basis of a level is an external component
  (\<^verbatim>\<open>gsTensorBSplineBasis\<close> is not among the sources). Of it the specification uses the
  size of its flat tensor index space and, for each tensor index, the support as a box of
  element indices of that level; \<^verbatim>\<open>elementSupport_into\<close> returns the lower and the
  upper corner of that box.
\<close>

record tensorBasis =
  tb_size :: nat
  tb_support :: "nat \<Rightarrow> nat list \<times> nat list"

subsection \<open>Lazy creation of levels\<close>

text \<open>
  Modelled from the spec: \<^verbatim>\<open>createMoreLevels(numLevels)\<close> is only declared in the header
  (\<open>Creates numLevels extra grids in the hierarchy\<close>). By the specification the sequence
  of per-level bases is append-only and level \<open>l + 1\<close> is a refinement of level \<open>l\<close>;
  \<open>refine\<close> is that refinement of the external tensor basis. A negative count creates
  nothing, and nothing can be refined when there is no level yet.
\<close>

fun append_levels :: "('tb \<Rightarrow> 'tb) \<Rightarrow> nat \<Rightarrow> 'tb list \<Rightarrow> 'tb list" where
  "append_levels refine 0 bases = bases"
| "append_levels refine (Suc n) bases = append_levels refine n (bases @ [refine (last bases)])"

definition createMoreLevels :: "('tb \<Rightarrow> 'tb) \<Rightarrow> int \<Rightarrow> 'tb list \<Rightarrow> 'tb list" where
  "createMoreLevels refine numLevels bases =
     (if bases = [] then bases else append_levels refine (nat numLevels) bases)"

text \<open>
  Modelled from the spec: \<^verbatim>\<open>needLevel(maxLevel)\<close> is only declared in the header
  (\<open>Makes sure that there are numLevels grids computed in the hierarchy\<close>). By the
  specification levels are created lazily up to the maximum ever requested, and requesting
  an available level does nothing.
\<close>

definition needLevel :: "('tb \<Rightarrow> 'tb) \<Rightarrow> int \<Rightarrow> 'tb list \<Rightarrow> 'tb list" where
  "needLevel refine maxLevel bases =
     (let extraLevels = maxLevel + 1 - int (length bases)
      in if 0 < extraLevels then createMoreLevels refine extraLevels bases else bases)"

text \<open>
  \<^verbatim>\<open>tensorLevel(unsigned i)\<close> is defined in the header: it calls \<^verbatim>\<open>needLevel(i)\<close>, which
  converts \<open>i\<close> to \<^verbatim>\<open>int\<close>, and returns \<^verbatim>\<open>*m_bases[i]\<close>. The result is the new sequence
  of bases together with the basis returned.
\<close>

definition tensorLevel :: "('tb \<Rightarrow> 'tb) \<Rightarrow> unsigned \<Rightarrow> 'tb list \<Rightarrow> 'tb list \<times> (error + 'tb)" where
  "tensorLevel refine i bases =
     (let bases' = needLevel refine (sint i) bases in (bases', at_vec bases' (unat i)))"

subsection \<open>The domain tree\<close>

text \<open>
  Modelled from the spec: \<^verbatim>\<open>gsHDomain\<close> is not among the sources. By the specification
  the tree partitions the index domain into boxes, each tagged with a level, so that
  exactly one leaf governs every point and determines the level there; extents are
  expressed in the index coordinates of the finest resolution, and a box of level \<open>l\<close> is
  compared after scaling by \<open>2 ^ (maxLevel - l)\<close>. The model keeps what the leaves
  determine: the level of every cell of the finest resolution, together with the extent of
  the domain, the level of the finest resolution and the highest level at which a box was
  inserted (\<^verbatim>\<open>getMaxInsLevel\<close>).
\<close>

record gsHDomain =
  upper :: "nat list"
  index_level :: nat
  cell_level :: "nat list \<Rightarrow> nat"
  max_ins_level :: nat

definition in_box :: "nat list \<Rightarrow> nat list \<Rightarrow> nat list \<Rightarrow> bool" where
  "in_box low high c \<longleftrightarrow> list_all2 (\<le>) low c \<and> list_all2 (<) c high"

definition scaled :: "gsHDomain \<Rightarrow> nat \<Rightarrow> nat list \<Rightarrow> nat list" where
  "scaled t level k = map (\<lambda>x. x * 2 ^ (index_level t - level)) k"

text \<open>
  Modelled from the spec: \<^verbatim>\<open>insertBox(low, high, level)\<close> marks the index box
  \<open>[low, high)\<close>, given in the index coordinates of \<open>level\<close>, as belonging to \<open>level\<close>. It
  raises the level of every coarser region it overlaps and never decreases the level of
  a region finer than \<open>level\<close>. It fails with an assertion when \<open>level\<close> exceeds the number
  of instantiated tensor bases minus one; \<open>nbases\<close> is that number.
\<close>

definition insertBox :: "nat \<Rightarrow> nat list \<Rightarrow> nat list \<Rightarrow> nat \<Rightarrow> gsHDomain \<Rightarrow> error + gsHDomain" where
  "insertBox nbases low high level t =
     (if nbases < level + 1 then Inl (AssertFailed ''level not available'')
      else Inr (t\<lparr>cell_level :=
                    (\<lambda>c. if in_box (scaled t level low) (scaled t level high) c \<and> cell_level t c < level
                         then level else cell_level t c),
                  max_ins_level := max (max_ins_level t) level\<rparr>))"

subsection \<open>The hierarchical basis and its structure update\<close>

text \<open>
  The members of \<^verbatim>\<open>gsHTensorBasis\<close>: the per-level bases, the tree, the characteristic
  matrices and the offset table.
\<close>

record gsHTensorBasis = numbering +
  m_bases :: "tensorBasis list"
  m_tree :: gsHDomain

text \<open>The cells of a box, and the cells of the finest resolution in the support of a
  tensor function of a level.\<close>

fun box_cells :: "nat list \<Rightarrow> nat list \<Rightarrow> nat list list" where
  "box_cells [] [] = [[]]"
| "box_cells (l # low) (h # high) = concat (map (\<lambda>x. map ((#) x) (box_cells low high)) [l..<h])"
| "box_cells _ _ = []"

definition support_cells :: "gsHDomain \<Rightarrow> tensorBasis list \<Rightarrow> nat \<Rightarrow> nat \<Rightarrow> nat list list" where
  "support_cells t bases level j =
     (case tb_support (bases ! level) j of
        (low, high) \<Rightarrow> box_cells (scaled t level low) (scaled t level high))"

text \<open>
  Modelled from the spec: the selection is the standard hierarchical-basis selection rule.
  The region of level \<open>l\<close> is the part of the domain where the tree records level \<open>l\<close> or
  a finer one. A tensor function of level \<open>l\<close> is selected iff its support lies entirely
  within that region (no cell of it is coarser) and not entirely within the region of the
  finer levels: the lowest level that the tree records on the support is \<open>l\<close>. So, as the
  specification says, the functions of coarser levels reach into the refined regions. The
  selected indices of a level are those of the functions of its tensor basis; a level
  without a tensor basis has none.
\<close>

definition selected :: "gsHDomain \<Rightarrow> tensorBasis list \<Rightarrow> nat \<Rightarrow> nat \<Rightarrow> bool" where
  "selected t bases level j \<longleftrightarrow>
     list_all (\<lambda>c. level \<le> cell_level t c) (support_cells t bases level j) \<and>
     list_ex (\<lambda>c. cell_level t c = level) (support_cells t bases level j)"

definition characteristic_indices :: "gsHDomain \<Rightarrow> tensorBasis list \<Rightarrow> nat \<Rightarrow> nat list" where
  "characteristic_indices t bases level =
     (if level < length bases
      then filter (selected t bases level) [0..<tb_size (bases ! level)]
      else [])"

text \<open>
  Modelled from the spec: \<^verbatim>\<open>update_structure()\<close> is only declared in the header. For each
  level from 0 to \<^verbatim>\<open>maxLevel()\<close>, which the header defines as the tree's
  \<^verbatim>\<open>getMaxInsLevel()\<close>, it assembles the characteristic matrix as the sorted set of the
  selected tensor indices of that level, and it computes the offsets as the prefix sums of
  the sizes of the matrices. A level that is not yet instantiated is created first.
\<close>

definition update_structure :: "(tensorBasis \<Rightarrow> tensorBasis) \<Rightarrow> gsHTensorBasis \<Rightarrow> gsHTensorBasis" where
  "update_structure refine h =
     (let bases = needLevel refine (int (max_ins_level (m_tree h))) (m_bases h);
          indices = map (characteristic_indices (m_tree h) bases) [0..<max_ins_level (m_tree h) + 1]
      in h\<lparr>m_xmatrix := map (map word_of_nat) indices,
           m_xmatrix_offset := map word_of_nat (prefix_sums (map length indices)),
           m_bases := bases\<rparr>)"

text \<open>
  Modelled from the spec: \<^verbatim>\<open>insert_box\<close> and \<^verbatim>\<open>refineElements\<close> are only declared in
  the header. \<^verbatim>\<open>refineElements\<close> inserts each box, given as a level with a lower and an
  upper corner in the index coordinates of that level, directly into the tree and calls
  \<^verbatim>\<open>update_structure()\<close> once per box; \<open>refine_box\<close> is that step for one box.
\<close>

definition insert_box :: "nat list \<Rightarrow> nat list \<Rightarrow> nat \<Rightarrow> gsHTensorBasis \<Rightarrow> error + gsHTensorBasis" where
  "insert_box k1 k2 lvl h =
     (case insertBox (length (m_bases h)) k1 k2 lvl (m_tree h) of
        Inl e \<Rightarrow> Inl e
      | Inr t \<Rightarrow> Inr (h\<lparr>m_tree := t\<rparr>))"

definition refine_box ::
  "(tensorBasis \<Rightarrow> tensorBasis) \<Rightarrow> nat list \<Rightarrow> nat list \<Rightarrow> nat \<Rightarrow> gsHTensorBasis \<Rightarrow> error + gsHTensorBasis" where
  "refine_box refine k1 k2 lvl h =
     (case insert_box k1 k2 lvl h of
        Inl e \<Rightarrow> Inl e
      | Inr h' \<Rightarrow> Inr (update_structure refine h'))"

text \<open>
  An example: piecewise linear B-splines in one direction. With \<open>n\<close> elements there are
  \<open>n + 1\<close> functions, and function \<open>j\<close> is supported on the elements \<open>j - 1\<close> and \<open>j\<close> that
  exist. Refinement halves every element. The example basis has three elements on level
  0 and no refinement yet.
\<close>

definition linear_basis :: "nat \<Rightarrow> tensorBasis" where
  "linear_basis n = \<lparr>tb_size = n + 1, tb_support = (\<lambda>j. ([j - 1], [min n (j + 1)]))\<rparr>"

definition halve :: "tensorBasis \<Rightarrow> tensorBasis" where
  "halve b = linear_basis (2 * (tb_size b - 1))"

definition example_tree :: gsHDomain where
  "example_tree = \<lparr>upper = [6], index_level = 1, cell_level = (\<lambda>c. 0), max_ins_level = 0\<rparr>"

definition example_basis :: gsHTensorBasis where
  "example_basis = update_structure halve
     \<lparr>m_xmatrix = [], m_xmatrix_offset = [],
      m_bases = [linear_basis 3, linear_basis 6], m_tree = example_tree\<rparr>"

text \<open>The example after refining the element box \<open>[0, 1)\<close> of level 1, and after refining
  the box \<open>[2, 4)\<close> of level 1 as well.\<close>

definition example_once :: gsHTensorBasis where
  "example_once = projr (refine_box halve [0] [1] 1 example_basis)"


text \<open>
  The cells of the whole index domain, and the cells covered by the supports of the
  functions that the characteristic matrices select, level by level.
\<close>

definition domain_cells :: "gsHDomain \<Rightarrow> nat list list" where
  "domain_cells t = box_cells (map (\<lambda>u. 0) (upper t)) (upper t)"


text \<open>
  The tree records no level above the highest level at which a box was inserted.
\<close>

definition levels_bounded :: "gsHDomain \<Rightarrow> bool" where
  "levels_bounded t \<longleftrightarrow> list_all (\<lambda>c. cell_level t c \<le> max_ins_level t) (domain_cells t)"







section \<open>Verified properties\<close>

subsection \<open>Binary search in the offset table\<close>

lemma upper_bound_loop_spec:
  assumes "sorted v" "first + len \<le> length v"
    "\<forall>j<first. v ! j \<le> val" "\<forall>j. first + len \<le> j \<and> j < length v \<longrightarrow> val < v ! j"
  shows "first \<le> upper_bound_loop v val first len \<and> upper_bound_loop v val first len \<le> first + len \<and>
    (\<forall>j<upper_bound_loop v val first len. v ! j \<le> val) \<and>
    (\<forall>j. upper_bound_loop v val first len \<le> j \<and> j < length v \<longrightarrow> val < v ! j)"
  using assms
proof (induction v val first len rule: upper_bound_loop.induct)
  case (1 v val first len)
  show ?case
  proof (cases "len = 0")
    case True
    then show ?thesis using 1(3-) by (simp add: upper_bound_loop.simps)
  next
    case False
    define half where "half = len div 2"
    define middle where "middle = first + half"
    have hl: "half < len" using False by (simp add: half_def)
    have mid: "middle < length v" using hl 1(4) by (simp add: middle_def)
    show ?thesis
    proof (cases "val < v ! middle")
      case True
      have a: "\<forall>j. first + half \<le> j \<and> j < length v \<longrightarrow> val < v ! j"
      proof (intro allI impI)
        fix j assume j: "first + half \<le> j \<and> j < length v"
        then have "v ! middle \<le> v ! j" using \<open>sorted v\<close> by (simp add: middle_def sorted_nth_mono)
        then show "val < v ! j" using True by simp
      qed
      have eq: "upper_bound_loop v val first len = upper_bound_loop v val first half"
        using False True by (subst upper_bound_loop.simps) (simp add: half_def middle_def Let_def)
      have "first + half \<le> length v" using hl 1(4) by simp
      from 1(1)[OF False half_def middle_def True \<open>sorted v\<close> this 1(5) a]
      show ?thesis unfolding eq using hl by auto
    next
      case F2: False
      have a: "\<forall>j<middle + 1. v ! j \<le> val"
      proof (intro allI impI)
        fix j assume j: "j < middle + 1"
        then have "v ! j \<le> v ! middle" using \<open>sorted v\<close> mid by (simp add: sorted_nth_mono)
        then show "v ! j \<le> val" using F2 by simp
      qed
      have eq: "upper_bound_loop v val first len = upper_bound_loop v val (middle + 1) (len - half - 1)"
        using False F2 by (subst upper_bound_loop.simps) (simp add: half_def middle_def Let_def)
      have b: "middle + 1 + (len - half - 1) = first + len" using hl by (simp add: middle_def)
      have c: "middle + 1 + (len - half - 1) \<le> length v" using b 1(4) by simp
      have d: "\<forall>j. middle + 1 + (len - half - 1) \<le> j \<and> j < length v \<longrightarrow> val < v ! j"
        using 1(6) b by simp
      from 1(2)[OF False half_def middle_def F2 \<open>sorted v\<close> c a d]
      show ?thesis unfolding eq using b by (auto simp: middle_def)
    qed
  qed
qed

lemma upper_bound_spec:
  assumes "sorted v"
  shows "upper_bound v val \<le> length v \<and>
    (\<forall>j<upper_bound v val. v ! j \<le> val) \<and>
    (\<forall>j. upper_bound v val \<le> j \<and> j < length v \<longrightarrow> val < v ! j)"
proof -
  have a: "\<forall>j. 0 + length v \<le> j \<and> j < length v \<longrightarrow> val < v ! j"
    by (simp add: not_less [symmetric])
  have b: "\<forall>j<0::nat. v ! j \<le> val" by simp
  have c: "0 + length v \<le> length v" by simp
  from upper_bound_loop_spec [OF assms c b a]
  show ?thesis
    unfolding upper_bound_def by simp
qed

lemma length_prefix_sums: "length (prefix_sums ns) = length ns + 1"
  by (simp add: prefix_sums_def)

lemma nth_prefix_sums: "l \<le> length ns \<Longrightarrow> prefix_sums ns ! l = sum_list (take l ns)"
  unfolding prefix_sums_def by (simp del: upt_Suc)

lemma sum_list_take_mono: "k \<le> l \<Longrightarrow> sum_list (take k ns) \<le> sum_list (take l (ns::nat list))"
proof -
  assume "k \<le> l"
  then have "take l ns = take k ns @ take (l - k) (drop k ns)"
    by (metis le_add_diff_inverse take_add)
  then show ?thesis by simp
qed

lemma sum_list_take_Suc: "l < length ns \<Longrightarrow> sum_list (take (Suc l) ns) = sum_list (take l ns) + (ns ! l :: nat)"
  by (simp add: take_Suc_conv_app_nth)

lemma offsets_ok_length: "offsets_ok b \<Longrightarrow> length (m_xmatrix_offset b) = length (m_xmatrix b) + 1"
  unfolding offsets_ok_def using length_prefix_sums [of "map length (m_xmatrix b)"]
  by (metis length_map)

lemma offsets_ok_nth:
  assumes "offsets_ok b" "l \<le> length (m_xmatrix b)"
  shows "unat (m_xmatrix_offset b ! l) = sum_list (take l (map length (m_xmatrix b)))"
proof -
  have "l < length (m_xmatrix_offset b)" using assms offsets_ok_length by fastforce
  then have "unat (m_xmatrix_offset b ! l) = map unat (m_xmatrix_offset b) ! l" by simp
  also have "\<dots> = prefix_sums (map length (m_xmatrix b)) ! l"
    using assms(1) by (simp add: offsets_ok_def)
  also have "\<dots> = sum_list (take l (map length (m_xmatrix b)))"
    using assms(2) by (simp add: nth_prefix_sums)
  finally show ?thesis .
qed

lemma offsets_ok_mono:
  assumes "offsets_ok b" "k \<le> l" "l \<le> length (m_xmatrix b)"
  shows "m_xmatrix_offset b ! k \<le> m_xmatrix_offset b ! l"
proof -
  have "k \<le> length (m_xmatrix b)" using assms by simp
  then show ?thesis
    using assms offsets_ok_nth [of b k] offsets_ok_nth [of b l]
      sum_list_take_mono [of k l "map length (m_xmatrix b)"]
    by (simp add: word_le_nat_alt)
qed

lemma offsets_ok_sorted: "offsets_ok b \<Longrightarrow> sorted (m_xmatrix_offset b)"
proof -
  assume ok: "offsets_ok b"
  show ?thesis
    unfolding sorted_iff_nth_mono
  proof (intro allI impI)
    fix i j assume "i \<le> j" "j < length (m_xmatrix_offset b)"
    then show "m_xmatrix_offset b ! i \<le> m_xmatrix_offset b ! j"
      using offsets_ok_mono [OF ok, of i j] offsets_ok_length [OF ok] by simp
  qed
qed

lemma upper_bound_valid:
  assumes ok: "offsets_ok b" and valid: "unat i < sum_list (map length (m_xmatrix b))"
  shows "0 < upper_bound (m_xmatrix_offset b) i \<and>
         upper_bound (m_xmatrix_offset b) i \<le> length (m_xmatrix b) \<and>
         m_xmatrix_offset b ! (upper_bound (m_xmatrix_offset b) i - 1) \<le> i \<and>
         i < m_xmatrix_offset b ! upper_bound (m_xmatrix_offset b) i"
proof -
  define r where "r = upper_bound (m_xmatrix_offset b) i"
  define L where "L = length (m_xmatrix b)"
  note ub = upper_bound_spec [OF offsets_ok_sorted [OF ok], of i, folded r_def]
  have len: "length (m_xmatrix_offset b) = L + 1"
    using offsets_ok_length [OF ok] by (simp add: L_def)
  have z: "unat (m_xmatrix_offset b ! 0) = 0"
    using offsets_ok_nth [OF ok, of 0] by simp
  have top: "unat (m_xmatrix_offset b ! L) = sum_list (map length (m_xmatrix b))"
    using offsets_ok_nth [OF ok, of L] by (simp add: L_def)
  have r_pos: "0 < r"
  proof (rule ccontr)
    assume "\<not> 0 < r"
    then have "i < m_xmatrix_offset b ! 0" using ub len by simp
    then show False using z by (simp add: word_less_nat_alt)
  qed
  have r_le: "r \<le> L"
  proof (rule ccontr)
    assume "\<not> r \<le> L"
    then have "L < r" by simp
    then have "m_xmatrix_offset b ! L \<le> i" using ub by simp
    then show False using top valid by (simp add: word_le_nat_alt)
  qed
  have lo: "m_xmatrix_offset b ! (r - 1) \<le> i" using ub r_pos by simp
  have hi: "i < m_xmatrix_offset b ! r" using ub r_le len by simp
  show ?thesis using r_pos r_le lo hi by (simp add: r_def L_def)
qed

lemma sint_word_of_nat_pred:
  assumes "0 < r" "r \<le> 2 ^ 31"
  shows "sint (word_of_nat r - 1 :: 32 word) = int r - 1"
proof -
  obtain k where k: "r = Suc k" using assms(1) by (cases r) auto
  have "(word_of_nat r - 1 :: 32 word) = word_of_nat k" by (simp add: k)
  moreover have "sint (word_of_nat k :: 32 word) = int k"
    using assms(2) k by (simp add: signed_of_nat signed_take_bit_int_eq_self)
  ultimately show ?thesis by (simp add: k)
qed

lemma levelOf_valid:
  assumes ok: "offsets_ok b" and valid: "unat i < sum_list (map length (m_xmatrix b))"
    and small: "length (m_xmatrix b) < 2 ^ 31"
  shows "levelOf b i = int (upper_bound (m_xmatrix_offset b) i) - 1"
proof -
  define r where "r = upper_bound (m_xmatrix_offset b) i"
  have "0 < r" "r \<le> length (m_xmatrix b)"
    using upper_bound_valid [OF ok valid] unfolding r_def by blast+
  then have r: "0 < r" "r \<le> 2 ^ 31"
    using small by simp_all
  show ?thesis
    unfolding levelOf_def using sint_word_of_nat_pred [OF r] by (simp add: r_def)
qed

lemma level_facts:
  assumes ok: "offsets_ok b" and valid: "unat i < sum_list (map length (m_xmatrix b))"
    and small: "length (m_xmatrix b) < 2 ^ 31"
  obtains l where "levelOf b i = int l" and "l < length (m_xmatrix b)"
    and "m_xmatrix_offset b ! l \<le> i" and "i < m_xmatrix_offset b ! (l + 1)"
    and "\<forall>k < length (m_xmatrix b).
        m_xmatrix_offset b ! k \<le> i \<and> i < m_xmatrix_offset b ! (k + 1) \<longrightarrow> k = l"
    and "unat (i - m_xmatrix_offset b ! l) < length (m_xmatrix b ! l)"
proof -
  define r where "r = upper_bound (m_xmatrix_offset b) i"
  define l where "l = r - 1"
  note v = upper_bound_valid [OF ok valid, folded r_def]
  note ub = upper_bound_spec [OF offsets_ok_sorted [OF ok], of i, folded r_def]
  have r_pos: "0 < r" and r_le: "r \<le> length (m_xmatrix b)"
    and lo: "m_xmatrix_offset b ! l \<le> i" and hi': "i < m_xmatrix_offset b ! r"
    using v unfolding l_def by blast+
  have r_l: "r = l + 1" using r_pos by (simp add: l_def)
  have lev: "levelOf b i = int l"
    using levelOf_valid [OF ok valid small] r_l by (simp add: r_def)
  have l_lt: "l < length (m_xmatrix b)" using r_le r_l by simp
  have hi: "i < m_xmatrix_offset b ! (l + 1)" using hi' r_l by simp
  have uniq: "\<forall>k < length (m_xmatrix b).
        m_xmatrix_offset b ! k \<le> i \<and> i < m_xmatrix_offset b ! (k + 1) \<longrightarrow> k = l"
  proof (intro allI impI)
    fix k assume k: "k < length (m_xmatrix b)"
      and b: "m_xmatrix_offset b ! k \<le> i \<and> i < m_xmatrix_offset b ! (k + 1)"
    have len: "length (m_xmatrix_offset b) = length (m_xmatrix b) + 1"
      by (rule offsets_ok_length [OF ok])
    have "k < r"
    proof (rule ccontr)
      assume "\<not> k < r"
      then have "i < m_xmatrix_offset b ! k" using ub k len by simp
      then show False using leD [OF conjunct1 [OF b]] by simp
    qed
    moreover have "r \<le> k + 1"
    proof (rule ccontr)
      assume "\<not> r \<le> k + 1"
      then have "m_xmatrix_offset b ! (k + 1) \<le> i" using ub by simp
      from leD [OF this] show False using conjunct2 [OF b] by simp
    qed
    ultimately show "k = l" using r_l by simp
  qed
  have pos: "unat (i - m_xmatrix_offset b ! l) < length (m_xmatrix b ! l)"
  proof -
    have a: "unat (m_xmatrix_offset b ! (l + 1)) =
        unat (m_xmatrix_offset b ! l) + length (m_xmatrix b ! l)"
      using offsets_ok_nth [OF ok, of "l + 1"] offsets_ok_nth [OF ok, of l] l_lt
        sum_list_take_Suc [of l "map length (m_xmatrix b)"]
      by simp
    have "unat (i - m_xmatrix_offset b ! l) = unat i - unat (m_xmatrix_offset b ! l)"
      using lo by (rule unat_sub)
    moreover have "unat i < unat (m_xmatrix_offset b ! (l + 1))"
      using hi by (simp add: word_less_nat_alt)
    moreover have "unat (m_xmatrix_offset b ! l) \<le> unat i"
      using lo by (simp add: word_le_nat_alt)
    ultimately show ?thesis using a by simp
  qed
  show ?thesis
    by (rule that [OF lev l_lt lo hi uniq pos])
qed

text \<open>
  Claim C1 (global numbering consistency). Let the offset table hold the prefix sums of
  the sizes of the characteristic matrices, let \<open>i\<close> be a valid global index (smaller
  than the total number of selected functions), and let the number of levels fit the
  \<^verbatim>\<open>int\<close> that \<^verbatim>\<open>levelOf\<close> returns. Then \<^verbatim>\<open>levelOf(i)\<close> is a level \<open>l\<close> of
  the basis with \<open>offsets[l] \<le> i < offsets[l+1]\<close>, it is the only such level, the
  position \<open>i - offsets[l]\<close> lies inside the characteristic matrix of level \<open>l\<close>, and
  adding the offset back to the position gives \<open>i\<close> again.
\<close>

theorem levelOf_global_numbering:
  assumes ok: "offsets_ok b" and valid: "unat i < sum_list (map length (m_xmatrix b))"
    and small: "length (m_xmatrix b) < 2 ^ 31"
  shows "0 \<le> levelOf b i \<and> nat (levelOf b i) < length (m_xmatrix b) \<and>
    m_xmatrix_offset b ! nat (levelOf b i) \<le> i \<and>
    i < m_xmatrix_offset b ! (nat (levelOf b i) + 1) \<and>
    (\<forall>l < length (m_xmatrix b).
        m_xmatrix_offset b ! l \<le> i \<and> i < m_xmatrix_offset b ! (l + 1) \<longrightarrow> int l = levelOf b i) \<and>
    unat (i - m_xmatrix_offset b ! nat (levelOf b i)) < length (m_xmatrix b ! nat (levelOf b i)) \<and>
    m_xmatrix_offset b ! nat (levelOf b i) + (i - m_xmatrix_offset b ! nat (levelOf b i)) = i"
proof -
  obtain l where lev: "levelOf b i = int l" and l_lt: "l < length (m_xmatrix b)"
    and lo: "m_xmatrix_offset b ! l \<le> i" and hi: "i < m_xmatrix_offset b ! (l + 1)"
    and uniq: "\<forall>k < length (m_xmatrix b).
        m_xmatrix_offset b ! k \<le> i \<and> i < m_xmatrix_offset b ! (k + 1) \<longrightarrow> k = l"
    and pos: "unat (i - m_xmatrix_offset b ! l) < length (m_xmatrix b ! l)"
    by (rule level_facts [OF ok valid small])
  have rt: "m_xmatrix_offset b ! l + (i - m_xmatrix_offset b ! l) = i" by simp
  have uniq': "\<forall>k < length (m_xmatrix b).
        m_xmatrix_offset b ! k \<le> i \<and> i < m_xmatrix_offset b ! (k + 1) \<longrightarrow> int k = int l"
    using uniq by simp
  have n: "nat (int l) = l" by simp
  show ?thesis
    unfolding lev n
  proof (intro conjI)
    show "0 \<le> int l" by simp
    show "l < length (m_xmatrix b)" by (rule l_lt)
    show "m_xmatrix_offset b ! l \<le> i" by (rule lo)
    show "i < m_xmatrix_offset b ! (l + 1)" by (rule hi)
    show "\<forall>k < length (m_xmatrix b).
        m_xmatrix_offset b ! k \<le> i \<and> i < m_xmatrix_offset b ! (k + 1) \<longrightarrow> int k = int l"
      by (rule uniq')
    show "unat (i - m_xmatrix_offset b ! l) < length (m_xmatrix b ! l)" by (rule pos)
    show "m_xmatrix_offset b ! l + (i - m_xmatrix_offset b ! l) = i" by (rule rt)
  qed
qed


theorem levelOf_global_numbering_witness:
  "offsets_ok example_numbering \<and>
   unat (3 :: unsigned) < sum_list (map length (m_xmatrix example_numbering)) \<and>
   length (m_xmatrix example_numbering) < 2 ^ 31 \<and>
   levelOf example_numbering 3 = 2 \<and>
   m_xmatrix_offset example_numbering ! 2 \<le> 3 \<and>
   3 < m_xmatrix_offset example_numbering ! 3 \<and>
   unat (3 - m_xmatrix_offset example_numbering ! 2) < length (m_xmatrix example_numbering ! 2)"
proof -
  have ok: "offsets_ok example_numbering"
    by (simp add: offsets_ok_def example_numbering_def prefix_sums_def upt_rec)
  have valid: "unat (3 :: unsigned) < sum_list (map length (m_xmatrix example_numbering))"
    by (simp add: example_numbering_def)
  have small: "length (m_xmatrix example_numbering) < 2 ^ 31"
    by (simp add: example_numbering_def)
  have lev: "levelOf example_numbering 3 = 2"
    by (simp add: levelOf_def upper_bound_def example_numbering_def upper_bound_loop.simps)
  from levelOf_global_numbering [OF ok valid small]
  show ?thesis using ok valid small unfolding lev by simp
qed

subsection \<open>The tensor index of a global index\<close>

lemma offsets_ok_step:
  assumes ok: "offsets_ok b" and k: "k < length (m_xmatrix b)"
  shows "unat (m_xmatrix_offset b ! (k + 1)) = unat (m_xmatrix_offset b ! k) + length (m_xmatrix b ! k)"
  using offsets_ok_nth [OF ok, of "k + 1"] offsets_ok_nth [OF ok, of k] k
    sum_list_take_Suc [of k "map length (m_xmatrix b)"]
  by simp

lemma at_vec_in: "k < length v \<Longrightarrow> at_vec v k = Inr (v ! k)"
  by (simp add: at_vec_def)

lemma at_vec_out: "length v \<le> k \<Longrightarrow> at_vec v k = Inl OutOfRange"
  by (simp add: at_vec_def)

lemma flatTensorIndexOf_level_in:
  assumes ok: "offsets_ok b" and k: "k < length (m_xmatrix b)" and u: "unat level = k"
  shows "flatTensorIndexOf_level b i level =
           at_vec (m_xmatrix b ! k) (unat (i - m_xmatrix_offset b ! k))"
proof -
  have "k < length (m_xmatrix_offset b)" using offsets_ok_length [OF ok] k by simp
  then show ?thesis using k u by (simp add: flatTensorIndexOf_level_def at_vec_in)
qed

lemma flatTensorIndexOf_level_beyond:
  assumes ok: "offsets_ok b" and k: "length (m_xmatrix b) \<le> unat level"
  shows "flatTensorIndexOf_level b i level = Inl OutOfRange"
proof (cases "unat level < length (m_xmatrix_offset b)")
  case True
  then show ?thesis using k by (simp add: flatTensorIndexOf_level_def at_vec_in at_vec_out)
next
  case False
  then show ?thesis by (simp add: flatTensorIndexOf_level_def at_vec_out)
qed

lemma flatTensorIndexOf_valid:
  assumes ok: "offsets_ok b" and l: "l < length (m_xmatrix b)" and lev: "levelOf b i = int l"
  shows "flatTensorIndexOf b i = at_vec (m_xmatrix b ! l) (unat (i - m_xmatrix_offset b ! l))"
proof -
  have lo: "l < length (m_xmatrix_offset b)" using offsets_ok_length [OF ok] l by simp
  show ?thesis
    unfolding flatTensorIndexOf_def Let_def lev
    using l lo by (simp add: at_int_def at_vec_in)
qed

lemma offsets_below_2p32:
  assumes ok: "offsets_ok b" and k: "k < length (m_xmatrix b)"
  shows "unat (m_xmatrix_offset b ! k) + length (m_xmatrix b ! k) < 2 ^ 32"
proof -
  have "unat (m_xmatrix_offset b ! (k + 1)) < 2 ^ 32"
    using unsigned_less [of "m_xmatrix_offset b ! (k + 1)", where 'a = nat] by simp
  then show ?thesis using offsets_ok_step [OF ok k] by simp
qed

lemma wrong_level_position:
  assumes ok: "offsets_ok b" and l: "l < length (m_xmatrix b)"
    and lo: "m_xmatrix_offset b ! l \<le> i" and hi: "i < m_xmatrix_offset b ! (l + 1)"
    and k: "k < length (m_xmatrix b)" and ne: "k \<noteq> l"
  shows "length (m_xmatrix b ! k) \<le> unat (i - m_xmatrix_offset b ! k)"
proof (cases "k < l")
  case True
  then have "m_xmatrix_offset b ! (k + 1) \<le> m_xmatrix_offset b ! l"
    using offsets_ok_mono [OF ok, of "k + 1" l] l by simp
  then have a: "unat (m_xmatrix_offset b ! (k + 1)) \<le> unat i"
    using lo by (simp add: word_le_nat_alt)
  then have "unat (m_xmatrix_offset b ! k) \<le> unat i"
    using offsets_ok_step [OF ok k] by simp
  then have "unat (i - m_xmatrix_offset b ! k) = unat i - unat (m_xmatrix_offset b ! k)"
    by (simp add: unat_sub word_le_nat_alt)
  then show ?thesis using a offsets_ok_step [OF ok k] by simp
next
  case False
  then have "l + 1 \<le> k" using ne by simp
  then have "m_xmatrix_offset b ! (l + 1) \<le> m_xmatrix_offset b ! k"
    using offsets_ok_mono [OF ok, of "l + 1" k] k by simp
  then have a: "unat i < unat (m_xmatrix_offset b ! k)"
    using hi by (simp add: word_le_nat_alt word_less_nat_alt)
  then have "unat (i - m_xmatrix_offset b ! k) = unat i + 2 ^ 32 - unat (m_xmatrix_offset b ! k)"
    by (simp add: unat_sub_if_size word_size)
  then show ?thesis using offsets_below_2p32 [OF ok k] by simp
qed

lemma unat_word_of_int_small:
  assumes "l < 2 ^ 31"
  shows "unat (word_of_int (int l) :: unsigned) = l"
proof -
  have "unat (word_of_nat l :: unsigned) = l mod 2 ^ 32" by (simp add: unat_of_nat)
  then show ?thesis using assms by simp
qed

text \<open>
  Claim C10 (agreement of the two overloads of \<^verbatim>\<open>flatTensorIndexOf\<close>). Under the
  assumptions of C1, the one-argument overload returns the same tensor index as the
  two-argument overload called with \<open>level = levelOf(i)\<close> (converted to
  \<^verbatim>\<open>unsigned\<close>): the entry at position \<open>i - offsets[level]\<close> of that level's
  characteristic matrix. For every other value of \<open>level\<close> the two-argument overload
  reads no entry at all: the index it computes, by unsigned subtraction, lies outside the
  vectors it accesses.
\<close>

theorem flatTensorIndexOf_overloads_agree:
  assumes ok: "offsets_ok b" and valid: "unat i < sum_list (map length (m_xmatrix b))"
    and small: "length (m_xmatrix b) < 2 ^ 31"
  shows "flatTensorIndexOf b i = flatTensorIndexOf_level b i (word_of_int (levelOf b i)) \<and>
    flatTensorIndexOf b i =
      Inr (m_xmatrix b ! nat (levelOf b i) ! unat (i - m_xmatrix_offset b ! nat (levelOf b i))) \<and>
    (\<forall>level. level \<noteq> word_of_int (levelOf b i) \<longrightarrow>
        flatTensorIndexOf_level b i level = Inl OutOfRange)"
proof -
  obtain l where lev: "levelOf b i = int l" and l_lt: "l < length (m_xmatrix b)"
    and lo: "m_xmatrix_offset b ! l \<le> i" and hi: "i < m_xmatrix_offset b ! (l + 1)"
    and pos: "unat (i - m_xmatrix_offset b ! l) < length (m_xmatrix b ! l)"
    using level_facts [OF ok valid small] by metis
  have ul: "unat (word_of_int (int l) :: unsigned) = l"
    using unat_word_of_int_small [of l] l_lt small by simp
  have one: "flatTensorIndexOf b i = Inr (m_xmatrix b ! l ! unat (i - m_xmatrix_offset b ! l))"
    using flatTensorIndexOf_valid [OF ok l_lt lev] pos by (simp add: at_vec_in)
  have two: "flatTensorIndexOf_level b i (word_of_int (int l)) =
      Inr (m_xmatrix b ! l ! unat (i - m_xmatrix_offset b ! l))"
    using flatTensorIndexOf_level_in [OF ok l_lt ul] pos by (simp add: at_vec_in)
  have other: "\<forall>level. level \<noteq> word_of_int (int l) \<longrightarrow>
        flatTensorIndexOf_level b i level = Inl OutOfRange"
  proof (intro allI impI)
    fix level :: unsigned assume ne: "level \<noteq> word_of_int (int l)"
    show "flatTensorIndexOf_level b i level = Inl OutOfRange"
    proof (cases "unat level < length (m_xmatrix b)")
      case True
      have "unat level \<noteq> l"
      proof
        assume "unat level = l"
        then have "level = word_of_int (int l)" by auto
        then show False using ne by simp
      qed
      from wrong_level_position [OF ok l_lt lo hi True this]
      show ?thesis using flatTensorIndexOf_level_in [OF ok True refl, where i = i]
        by (simp add: at_vec_out)
    next
      case False
      then show ?thesis using flatTensorIndexOf_level_beyond [OF ok, of level i] by simp
    qed
  qed
  have n: "nat (int l) = l" by simp
  show ?thesis
    unfolding lev n
  proof (intro conjI)
    show "flatTensorIndexOf b i = flatTensorIndexOf_level b i (word_of_int (int l))"
      using one two by simp
    show "flatTensorIndexOf b i = Inr (m_xmatrix b ! l ! unat (i - m_xmatrix_offset b ! l))"
      by (rule one)
    show "\<forall>level. level \<noteq> word_of_int (int l) \<longrightarrow>
        flatTensorIndexOf_level b i level = Inl OutOfRange"
      by (rule other)
  qed
qed

theorem flatTensorIndexOf_overloads_agree_witness:
  "offsets_ok example_numbering \<and>
   unat (3 :: unsigned) < sum_list (map length (m_xmatrix example_numbering)) \<and>
   length (m_xmatrix example_numbering) < 2 ^ 31 \<and>
   levelOf example_numbering 3 = 2 \<and>
   flatTensorIndexOf example_numbering 3 = Inr 0 \<and>
   flatTensorIndexOf_level example_numbering 3 2 = Inr 0 \<and>
   (0 :: unsigned) \<noteq> 2 \<and>
   flatTensorIndexOf_level example_numbering 3 0 = Inl OutOfRange"
proof -
  have ok: "offsets_ok example_numbering"
    by (simp add: offsets_ok_def example_numbering_def prefix_sums_def upt_rec)
  have valid: "unat (3 :: unsigned) < sum_list (map length (m_xmatrix example_numbering))"
    by (simp add: example_numbering_def)
  have small: "length (m_xmatrix example_numbering) < 2 ^ 31"
    by (simp add: example_numbering_def)
  have lev: "levelOf example_numbering 3 = 2"
    by (simp add: levelOf_def upper_bound_def example_numbering_def upper_bound_loop.simps)
  have ne: "(0 :: unsigned) \<noteq> 2" by simp
  have ex: "m_xmatrix example_numbering ! 2 ! unat (3 - m_xmatrix_offset example_numbering ! 2) = 0"
    by (simp add: example_numbering_def)
  note t = flatTensorIndexOf_overloads_agree [OF ok valid small, unfolded lev]
  have one: "flatTensorIndexOf example_numbering 3 = Inr 0"
    using t [THEN conjunct2, THEN conjunct1] by (simp add: ex)
  have two: "flatTensorIndexOf_level example_numbering 3 2 = Inr 0"
    using t [THEN conjunct1] one by simp
  have other: "flatTensorIndexOf_level example_numbering 3 0 = Inl OutOfRange"
    using t [THEN conjunct2, THEN conjunct2] by simp
  show ?thesis using ok valid small ne lev one two other by simp
qed

subsection \<open>Global indices beyond the size of the basis\<close>

lemma upper_bound_beyond:
  assumes ok: "offsets_ok b" and s: "m_xmatrix_offset b ! length (m_xmatrix b) \<le> i"
  shows "upper_bound (m_xmatrix_offset b) i = length (m_xmatrix b) + 1"
proof -
  define r where "r = upper_bound (m_xmatrix_offset b) i"
  note ub = upper_bound_spec [OF offsets_ok_sorted [OF ok], of i, folded r_def]
  have len: "length (m_xmatrix_offset b) = length (m_xmatrix b) + 1"
    by (rule offsets_ok_length [OF ok])
  have "length (m_xmatrix b) < r"
  proof (rule ccontr)
    assume "\<not> length (m_xmatrix b) < r"
    then have "i < m_xmatrix_offset b ! length (m_xmatrix b)" using ub len by simp
    then show False using leD [OF s] by simp
  qed
  moreover have "r \<le> length (m_xmatrix b) + 1" using ub len by simp
  ultimately show ?thesis by (simp add: r_def)
qed

text \<open>
  Claim C6, as amended. The header puts no assertion into \<^verbatim>\<open>levelOf\<close> or
  \<^verbatim>\<open>flatTensorIndexOf\<close>. For a global index \<open>i \<ge> size()\<close> (offset table as in C1),
  \<^verbatim>\<open>levelOf(i)\<close> returns a value, the number of levels, which is one more than the last level
  of the basis; \<^verbatim>\<open>flatTensorIndexOf(i)\<close> then indexes \<^verbatim>\<open>m_xmatrix\<close> at that position, one
  past its end, without any check.
\<close>

theorem out_of_range_query_unchecked:
  assumes ok: "offsets_ok b" and size: "size_htb b = Inr s" and beyond: "s \<le> i"
    and small: "length (m_xmatrix b) < 2 ^ 31"
  shows "levelOf b i = int (length (m_xmatrix b)) \<and> flatTensorIndexOf b i = Inl OutOfRange"
proof -
  have len: "length (m_xmatrix_offset b) = length (m_xmatrix b) + 1"
    by (rule offsets_ok_length [OF ok])
  have s: "s = m_xmatrix_offset b ! length (m_xmatrix b)"
    using size len by (simp add: size_htb_def at_vec_def)
  have r: "upper_bound (m_xmatrix_offset b) i = length (m_xmatrix b) + 1"
    using upper_bound_beyond [OF ok] beyond s by simp
  have lev: "levelOf b i = int (length (m_xmatrix b))"
    unfolding levelOf_def r
    using sint_word_of_nat_pred [of "length (m_xmatrix b) + 1"] small by simp
  have "flatTensorIndexOf b i = Inl OutOfRange"
    unfolding flatTensorIndexOf_def Let_def lev
    using len by (simp add: at_int_def at_vec_def)
  then show ?thesis using lev by simp
qed

theorem out_of_range_query_unchecked_witness:
  "offsets_ok example_numbering \<and> size_htb example_numbering = Inr 5 \<and>
   (5 :: unsigned) \<le> 7 \<and> length (m_xmatrix example_numbering) < 2 ^ 31 \<and>
   levelOf example_numbering 7 = 3 \<and> flatTensorIndexOf example_numbering 7 = Inl OutOfRange"
proof -
  have ok: "offsets_ok example_numbering"
    by (simp add: offsets_ok_def example_numbering_def prefix_sums_def upt_rec)
  have size: "size_htb example_numbering = Inr 5"
    by (simp add: size_htb_def at_vec_def example_numbering_def)
  have beyond: "(5 :: unsigned) \<le> 7" by simp
  have small: "length (m_xmatrix example_numbering) < 2 ^ 31"
    by (simp add: example_numbering_def)
  have three: "int (length (m_xmatrix example_numbering)) = 3"
    by (simp add: example_numbering_def)
  from out_of_range_query_unchecked [OF ok size beyond small]
  show ?thesis using ok size beyond small unfolding three by simp
qed

text \<open>
  The claim as stated fails: for \<open>i = size() = 5\<close> in the example basis, \<^verbatim>\<open>levelOf\<close>
  returns 3 and \<^verbatim>\<open>flatTensorIndexOf\<close> ends in the unchecked access, not in a failed
  assertion.
\<close>

theorem out_of_range_query_counterexample:
  "size_htb example_numbering = Inr 5 \<and> levelOf example_numbering 5 = 3 \<and>
   flatTensorIndexOf example_numbering 5 = Inl OutOfRange \<and>
   Inl OutOfRange \<noteq> (Inl (AssertFailed []) :: error + unsigned)"
  by (simp add: size_htb_def at_vec_def at_int_def example_numbering_def levelOf_def
      flatTensorIndexOf_def upper_bound_def upper_bound_loop.simps)

subsection \<open>The difference between a coarse and a fine knot vector\<close>

lemma unat_succ:
  assumes "unat (i :: unsigned) + 1 < 2 ^ 32"
  shows "unat (i + 1) = unat i + 1"
proof -
  have "unat i + unat (1 :: unsigned) < 2 ^ LENGTH(32)" using assms by simp
  then have "unat (i + 1) = unat i + unat (1 :: unsigned)"
    by (simp only: unat_add_lem)
  then show ?thesis by simp
qed

lemma difference_loop_done:
  assumes "unat f_high < unat f_index"
  shows "difference_loop ckv fkv f_high c_index f_index knots = Some (Inr knots)"
proof -
  have "\<not> f_index \<le> f_high" using assms by (simp add: word_le_nat_alt)
  then show ?thesis by (subst difference_loop.simps) simp
qed

lemma difference_loop_match:
  assumes "unat f_index \<le> unat f_high" "unat f_index < length fkv" "unat c_index < length ckv"
    and "fst (fkv ! unat f_index) = fst (ckv ! unat c_index)"
  shows "difference_loop ckv fkv f_high c_index f_index knots =
     difference_loop ckv fkv f_high (c_index + 1) (f_index + 1)
       (knots @ replicate (unat (snd (fkv ! unat f_index)) - unat (snd (ckv ! unat c_index)))
                  (fst (fkv ! unat f_index)))"
proof -
  have le: "f_index \<le> f_high" using assms(1) by (simp add: word_le_nat_alt)
  have m: "snd (ckv ! unat c_index) < snd (fkv ! unat f_index) \<Longrightarrow>
      unat (snd (fkv ! unat f_index) - snd (ckv ! unat c_index)) =
      unat (snd (fkv ! unat f_index)) - unat (snd (ckv ! unat c_index))"
    by (simp add: unat_sub)
  have z: "\<not> snd (ckv ! unat c_index) < snd (fkv ! unat f_index) \<Longrightarrow>
      unat (snd (fkv ! unat f_index)) - unat (snd (ckv ! unat c_index)) = 0"
    by (simp add: word_less_nat_alt)
  show ?thesis
    apply (subst difference_loop.simps)
    using le assms(2-4) m z
    apply (simp add: uValue_def u_multiplicityIndex_def at_vec_def)
    done
qed

lemma difference_loop_skip:
  assumes "unat f_index \<le> unat f_high" "unat f_index < length fkv" "unat c_index < length ckv"
    and "fst (fkv ! unat f_index) \<noteq> fst (ckv ! unat c_index)"
  shows "difference_loop ckv fkv f_high c_index f_index knots =
     difference_loop ckv fkv f_high c_index (f_index + 1)
       (knots @ replicate (unat (snd (fkv ! unat f_index))) (fst (fkv ! unat f_index)))"
proof -
  have le: "f_index \<le> f_high" using assms(1) by (simp add: word_le_nat_alt)
  show ?thesis
    apply (subst difference_loop.simps)
    using le assms(2-4)
    apply (simp add: uValue_def u_multiplicityIndex_def at_vec_def)
    done
qed

lemma knots_nth_less:
  fixes kv :: "('a :: linorder) gsCompactKnotVector"
  assumes "sorted_wrt (<) (map fst kv)" "i < j" "j < length kv"
  shows "fst (kv ! i) < fst (kv ! j)"
  using sorted_wrt_nth_less [OF assms(1), of i j] assms(2,3) by simp

lemma knots_nth_le:
  fixes kv :: "('a :: linorder) gsCompactKnotVector"
  assumes "sorted_wrt (<) (map fst kv)" "i \<le> j" "j < length kv"
  shows "fst (kv ! i) \<le> fst (kv ! j)"
proof (cases "i = j")
  case True
  then show ?thesis by simp
next
  case False
  then have "i < j" using assms(2) by simp
  then show ?thesis using knots_nth_less [OF assms(1) _ assms(3)] by (simp add: less_imp_le)
qed

lemma knot_multiplicity_at:
  fixes kv :: "('a :: linorder) gsCompactKnotVector"
  assumes "sorted_wrt (<) (map fst kv)" "k < length kv"
  shows "knot_multiplicity kv (fst (kv ! k)) = unat (snd (kv ! k))"
proof -
  have d: "distinct (map fst kv)" using assms(1) by (simp add: strict_sorted_iff)
  have "(fst (kv ! k), snd (kv ! k)) \<in> set kv" using assms(2) by simp
  then have "map_of kv (fst (kv ! k)) = Some (snd (kv ! k))"
    using d by (rule map_of_is_SomeI [rotated])
  then show ?thesis by (simp add: knot_multiplicity_def)
qed

lemma knot_multiplicity_absent:
  assumes "\<forall>k < length kv. fst (kv ! k) \<noteq> v"
  shows "knot_multiplicity kv v = 0"
proof -
  have "v \<notin> fst ` set kv"
  proof
    assume "v \<in> fst ` set kv"
    then obtain p where "p \<in> set kv" "v = fst p" by (rule imageE)
    then obtain k where "k < length kv" "kv ! k = p" by (auto simp: in_set_conv_nth)
    then show False using assms \<open>v = fst p\<close> by auto
  qed
  then have "map_of kv v = None" by (simp add: map_of_eq_None_iff)
  then show ?thesis by (simp add: knot_multiplicity_def)
qed

lemma range_step:
  assumes "fi \<le> fh" "fh < length kv"
  shows "take (fh + 1 - fi) (drop fi kv) = kv ! fi # take (fh + 1 - (fi + 1)) (drop (fi + 1) kv)"
proof -
  have "drop fi kv = kv ! fi # drop (Suc fi) kv"
    using assms by (simp add: Cons_nth_drop_Suc)
  moreover have "fh + 1 - fi = Suc (fh - fi)" using assms by simp
  ultimately show ?thesis by simp
qed

lemma difference_loop_correct:
  fixes ckv fkv :: "('a :: linorder) gsCompactKnotVector"
  assumes sc: "sorted_wrt (<) (map fst ckv)" and sf: "sorted_wrt (<) (map fst fkv)"
    and fh: "unat f_high < length fkv" and lf: "length fkv < 2 ^ 32"
    and ch: "ch < length ckv" and lc: "length ckv < 2 ^ 32"
    and ends: "fst (ckv ! ch) = fst (fkv ! unat f_high)"
    and bound: "unat f_index \<le> unat f_high + 1"
    and inv: "unat f_index \<le> unat f_high \<Longrightarrow> unat c_index \<le> ch \<and>
         (\<forall>k. unat c_index \<le> k \<and> k \<le> ch \<longrightarrow>
              (\<exists>j. unat f_index \<le> j \<and> j \<le> unat f_high \<and> fst (ckv ! k) = fst (fkv ! j))) \<and>
         (\<forall>k < unat c_index. fst (ckv ! k) < fst (fkv ! unat f_index))"
  shows "difference_loop ckv fkv f_high c_index f_index knots =
     Some (Inr (knots @ concat (map (\<lambda>(v, m). replicate (unat m - knot_multiplicity ckv v) v)
          (take (unat f_high + 1 - unat f_index) (drop (unat f_index) fkv)))))"
  using bound inv
proof (induction "unat f_high + 1 - unat f_index" arbitrary: f_index c_index knots)
  case 0
  then have "unat f_high < unat f_index" by simp
  then show ?case using 0(1) by (simp add: difference_loop_done)
next
  case (Suc n)
  define fi where "fi = unat f_index"
  define ci where "ci = unat c_index"
  define fhn where "fhn = unat f_high"
  have fi_le: "fi \<le> fhn" using Suc(2) by (simp add: fi_def fhn_def)
  have fi_lt: "fi < length fkv" using fi_le fh by (simp add: fhn_def)
  note i = Suc(4) [folded fi_def fhn_def ci_def, OF fi_le]
  have ci_le: "ci \<le> ch" using i by simp
  have ci_lt: "ci < length ckv" using ci_le ch by simp
  have N: "\<And>k. ci \<le> k \<Longrightarrow> k \<le> ch \<Longrightarrow>
      \<exists>j. fi \<le> j \<and> j \<le> fhn \<and> fst (ckv ! k) = fst (fkv ! j)"
    using i by simp
  have P: "\<And>k. k < ci \<Longrightarrow> fst (ckv ! k) < fst (fkv ! fi)" using i by simp
  have uf: "unat (f_index + 1) = fi + 1"
    using unat_succ [of f_index] fi_lt lf by (simp add: fi_def)
  have uc: "unat (c_index + 1) = ci + 1"
    using unat_succ [of c_index] ci_lt lc by (simp add: ci_def)
  have n: "n = unat f_high + 1 - unat (f_index + 1)"
    using Suc(2) uf by (simp add: fi_def)
  have b: "unat (f_index + 1) \<le> unat f_high + 1"
    using uf fi_le by (simp add: fhn_def)
  have rs: "take (fhn + 1 - fi) (drop fi fkv) =
      fkv ! fi # take (fhn + 1 - (fi + 1)) (drop (fi + 1) fkv)"
    using range_step [OF fi_le] fh by (simp add: fhn_def)
  have below: "fst (fkv ! fi) \<le> fst (ckv ! ci)"
  proof -
    obtain j where j: "fi \<le> j" "j \<le> fhn" "fst (ckv ! ci) = fst (fkv ! j)"
      using N [of ci] ci_le by auto
    then show ?thesis using knots_nth_le [OF sf, of fi j] fh by (simp add: fhn_def)
  qed
  show ?case
  proof (cases "fst (fkv ! fi) = fst (ckv ! ci)")
    case True
    have inv': "unat (f_index + 1) \<le> unat f_high \<Longrightarrow> unat (c_index + 1) \<le> ch \<and>
         (\<forall>k. unat (c_index + 1) \<le> k \<and> k \<le> ch \<longrightarrow>
              (\<exists>j. unat (f_index + 1) \<le> j \<and> j \<le> unat f_high \<and> fst (ckv ! k) = fst (fkv ! j))) \<and>
         (\<forall>k < unat (c_index + 1). fst (ckv ! k) < fst (fkv ! unat (f_index + 1)))"
    proof -
      assume "unat (f_index + 1) \<le> unat f_high"
      then have more: "fi + 1 \<le> fhn" using uf by (simp add: fhn_def)
      have lt: "fst (fkv ! fi) < fst (fkv ! (fi + 1))"
        using knots_nth_less [OF sf, of fi "fi + 1"] more fh by (simp add: fhn_def)
      have "fst (fkv ! fi) < fst (fkv ! fhn)"
        using knots_nth_less [OF sf, of fi fhn] more fh by (simp add: fhn_def)
      then have "ci \<noteq> ch" using True ends by (auto simp: fhn_def)
      then have c1: "ci + 1 \<le> ch" using ci_le by simp
      have c2: "\<forall>k. ci + 1 \<le> k \<and> k \<le> ch \<longrightarrow>
              (\<exists>j. fi + 1 \<le> j \<and> j \<le> fhn \<and> fst (ckv ! k) = fst (fkv ! j))"
      proof (intro allI impI)
        fix k assume k: "ci + 1 \<le> k \<and> k \<le> ch"
        then obtain j where j: "fi \<le> j" "j \<le> fhn" "fst (ckv ! k) = fst (fkv ! j)"
          using N [of k] by auto
        have "fst (ckv ! ci) < fst (ckv ! k)"
          using knots_nth_less [OF sc, of ci k] k ch by simp
        then have "j \<noteq> fi" using True j(3) by auto
        then show "\<exists>j. fi + 1 \<le> j \<and> j \<le> fhn \<and> fst (ckv ! k) = fst (fkv ! j)"
          using j by (intro exI [of _ j]) simp
      qed
      have c3: "\<forall>k < ci + 1. fst (ckv ! k) < fst (fkv ! (fi + 1))"
      proof (intro allI impI)
        fix k assume "k < ci + 1"
        then have "fst (ckv ! k) \<le> fst (ckv ! ci)"
          using knots_nth_le [OF sc, of k ci] ci_lt by simp
        then show "fst (ckv ! k) < fst (fkv ! (fi + 1))" using True lt by simp
      qed
      show ?thesis unfolding uf uc using c1 c2 c3 by (simp add: fhn_def)
    qed
    have mult: "knot_multiplicity ckv (fst (fkv ! fi)) = unat (snd (ckv ! ci))"
      using knot_multiplicity_at [OF sc ci_lt] True by simp
    have "difference_loop ckv fkv f_high c_index f_index knots =
        difference_loop ckv fkv f_high (c_index + 1) (f_index + 1)
          (knots @ replicate (unat (snd (fkv ! fi)) - unat (snd (ckv ! ci))) (fst (fkv ! fi)))"
      using difference_loop_match [of f_index f_high fkv c_index ckv knots] fi_le fi_lt ci_lt True
      by (simp add: fi_def ci_def fhn_def)
    also have "\<dots> = Some (Inr ((knots @ replicate (unat (snd (fkv ! fi)) - unat (snd (ckv ! ci))) (fst (fkv ! fi))) @
        concat (map (\<lambda>(v, m). replicate (unat m - knot_multiplicity ckv v) v)
          (take (unat f_high + 1 - unat (f_index + 1)) (drop (unat (f_index + 1)) fkv)))))"
      by (rule Suc(1) [OF n b inv'])
    finally show ?thesis
      unfolding uf fi_def [symmetric] fhn_def [symmetric] rs
      by (simp add: mult case_prod_beta)
  next
    case False
    then have lt_c: "fst (fkv ! fi) < fst (ckv ! ci)" using below by simp
    have inv': "unat (f_index + 1) \<le> unat f_high \<Longrightarrow> unat c_index \<le> ch \<and>
         (\<forall>k. unat c_index \<le> k \<and> k \<le> ch \<longrightarrow>
              (\<exists>j. unat (f_index + 1) \<le> j \<and> j \<le> unat f_high \<and> fst (ckv ! k) = fst (fkv ! j))) \<and>
         (\<forall>k < unat c_index. fst (ckv ! k) < fst (fkv ! unat (f_index + 1)))"
    proof -
      assume "unat (f_index + 1) \<le> unat f_high"
      then have more: "fi + 1 \<le> fhn" using uf by (simp add: fhn_def)
      have lt: "fst (fkv ! fi) < fst (fkv ! (fi + 1))"
        using knots_nth_less [OF sf, of fi "fi + 1"] more fh by (simp add: fhn_def)
      have c2: "\<forall>k. ci \<le> k \<and> k \<le> ch \<longrightarrow>
              (\<exists>j. fi + 1 \<le> j \<and> j \<le> fhn \<and> fst (ckv ! k) = fst (fkv ! j))"
      proof (intro allI impI)
        fix k assume k: "ci \<le> k \<and> k \<le> ch"
        then obtain j where j: "fi \<le> j" "j \<le> fhn" "fst (ckv ! k) = fst (fkv ! j)"
          using N [of k] by auto
        have "fst (ckv ! ci) \<le> fst (ckv ! k)"
          using knots_nth_le [OF sc, of ci k] k ch by simp
        then have "fst (fkv ! fi) < fst (ckv ! k)" using lt_c by simp
        then have "j \<noteq> fi" using j(3) by auto
        then show "\<exists>j. fi + 1 \<le> j \<and> j \<le> fhn \<and> fst (ckv ! k) = fst (fkv ! j)"
          using j by (intro exI [of _ j]) simp
      qed
      have c3: "\<forall>k < ci. fst (ckv ! k) < fst (fkv ! (fi + 1))"
      proof (intro allI impI)
        fix k assume "k < ci"
        then have "fst (ckv ! k) < fst (fkv ! fi)" by (rule P)
        then show "fst (ckv ! k) < fst (fkv ! (fi + 1))" using lt by simp
      qed
      show ?thesis unfolding uf using ci_le c2 c3 by (simp add: fhn_def ci_def)
    qed
    have absent: "\<forall>k < length ckv. fst (ckv ! k) \<noteq> fst (fkv ! fi)"
    proof (intro allI impI)
      fix k assume k: "k < length ckv"
      show "fst (ckv ! k) \<noteq> fst (fkv ! fi)"
      proof (cases "k < ci")
        case True
        then show ?thesis using P [of k] by simp
      next
        case False
        then have "fst (ckv ! ci) \<le> fst (ckv ! k)"
          using knots_nth_le [OF sc, of ci k] k by simp
        then show ?thesis using lt_c by auto
      qed
    qed
    have mult: "knot_multiplicity ckv (fst (fkv ! fi)) = 0"
      by (rule knot_multiplicity_absent [OF absent])
    have "difference_loop ckv fkv f_high c_index f_index knots =
        difference_loop ckv fkv f_high c_index (f_index + 1)
          (knots @ replicate (unat (snd (fkv ! fi))) (fst (fkv ! fi)))"
      using difference_loop_skip [of f_index f_high fkv c_index ckv knots] fi_le fi_lt ci_lt False
      by (simp add: fi_def ci_def fhn_def)
    also have "\<dots> = Some (Inr ((knots @ replicate (unat (snd (fkv ! fi))) (fst (fkv ! fi))) @
        concat (map (\<lambda>(v, m). replicate (unat m - knot_multiplicity ckv v) v)
          (take (unat f_high + 1 - unat (f_index + 1)) (drop (unat (f_index + 1)) fkv)))))"
      by (rule Suc(1) [OF n b inv'])
    finally show ?thesis
      unfolding uf fi_def [symmetric] fhn_def [symmetric] rs
      by (simp add: mult case_prod_beta)
  qed
qed

lemma knot_range_nth:
  assumes "unat low \<le> k" "k \<le> unat high" "unat high < length kv"
  shows "kv ! k \<in> set (knot_range kv low high)"
proof -
  have "k - unat low < length (knot_range kv low high)"
    using assms by (simp add: knot_range_def)
  moreover have "knot_range kv low high ! (k - unat low) = kv ! k"
    using assms by (simp add: knot_range_def)
  ultimately show ?thesis by (metis nth_mem)
qed

lemma knot_range_index:
  assumes "p \<in> set (knot_range kv low high)"
  shows "\<exists>j. unat low \<le> j \<and> j \<le> unat high \<and> j < length kv \<and> kv ! j = p"
proof -
  obtain n where n: "n < length (knot_range kv low high)" "knot_range kv low high ! n = p"
    using assms by (auto simp: in_set_conv_nth)
  have a: "n < unat high + 1 - unat low" "unat low + n < length kv"
    using n(1) by (auto simp: knot_range_def)
  have "kv ! (unat low + n) = p" using n a by (simp add: knot_range_def)
  then show ?thesis using a by (intro exI [of _ "unat low + n"]) simp
qed

lemma sorted_replicated:
  fixes kvs :: "(('a :: linorder) \<times> 'b) list"
  assumes "sorted (map fst kvs)"
  shows "sorted (concat (map (\<lambda>(v, m). replicate (f v m) v) kvs))"
  using assms
proof (induction kvs)
  case Nil
  then show ?case by simp
next
  case (Cons p kvs)
  have "\<forall>y \<in> set (concat (map (\<lambda>(v, m). replicate (f v m) v) kvs)). fst p \<le> y"
    using Cons.prems by (auto simp: case_prod_beta)
  then show ?case using Cons by (auto simp: sorted_append case_prod_beta)
qed

text \<open>The function never reads \<^verbatim>\<open>c_high\<close>. For aligned ranges the multiplicity of a fine
  knot of the range is the same in the whole coarse vector and in its inspected range.\<close>

lemma differenceBetweenKnotVectors_ignores_c_high:
  "differenceBetweenKnotVectors ckv c_low c_high fkv f_low f_high knots =
   differenceBetweenKnotVectors ckv c_low c_high' fkv f_low f_high knots"
  by (simp add: differenceBetweenKnotVectors_def)

lemma knot_range_sorted:
  fixes kv :: "('a :: linorder) gsCompactKnotVector"
  assumes "sorted_wrt (<) (map fst kv)"
  shows "sorted_wrt (<) (map fst (knot_range kv low high))"
  unfolding knot_range_def using assms by (simp flip: take_map drop_map)

lemma knot_range_subset: "set (knot_range kv low high) \<subseteq> set kv"
  unfolding knot_range_def
  using set_take_subset [of "unat high + 1 - unat low" "drop (unat low) kv"]
    set_drop_subset [of "unat low" kv]
  by (rule subset_trans)

lemma knot_multiplicity_missing:
  assumes "v \<notin> fst ` set kv"
  shows "knot_multiplicity kv v = 0"
proof -
  have "map_of kv v = None" using assms by (simp add: map_of_eq_None_iff)
  then show ?thesis by (simp add: knot_multiplicity_def)
qed

lemma knot_multiplicity_member:
  fixes kv :: "('a :: linorder) gsCompactKnotVector"
  assumes "sorted_wrt (<) (map fst kv)" "p \<in> set kv"
  shows "knot_multiplicity kv (fst p) = unat (snd p)"
proof -
  have d: "distinct (map fst kv)" using assms(1) by (simp add: strict_sorted_iff)
  have "(fst p, snd p) \<in> set kv" using assms(2) by simp
  then have "map_of kv (fst p) = Some (snd p)"
    using d by (rule map_of_is_SomeI [rotated])
  then show ?thesis by (simp add: knot_multiplicity_def)
qed

lemma knot_multiplicity_range:
  fixes ckv :: "('a :: linorder) gsCompactKnotVector"
  assumes sc: "sorted_wrt (<) (map fst ckv)"
    and r: "unat c_low \<le> unat c_high" "unat c_high < length ckv"
    and v: "fst (ckv ! unat c_low) \<le> v" "v \<le> fst (ckv ! unat c_high)"
  shows "knot_multiplicity (knot_range ckv c_low c_high) v = knot_multiplicity ckv v"
proof (cases "v \<in> fst ` set ckv")
  case False
  then have "v \<notin> fst ` set (knot_range ckv c_low c_high)"
    using knot_range_subset [of ckv c_low c_high] by auto
  then show ?thesis using False by (simp add: knot_multiplicity_missing)
next
  case True
  then obtain p where p: "p \<in> set ckv" "v = fst p" by (rule imageE)
  then obtain k where k: "k < length ckv" "ckv ! k = p" by (auto simp: in_set_conv_nth)
  have lo: "unat c_low \<le> k"
  proof (rule ccontr)
    assume "\<not> unat c_low \<le> k"
    then have "fst (ckv ! k) < fst (ckv ! unat c_low)"
      using knots_nth_less [OF sc, of k "unat c_low"] r by simp
    then show False using v(1) p(2) k(2) by simp
  qed
  have hi: "k \<le> unat c_high"
  proof (rule ccontr)
    assume "\<not> k \<le> unat c_high"
    then have "fst (ckv ! unat c_high) < fst (ckv ! k)"
      using knots_nth_less [OF sc, of "unat c_high" k] k(1) by simp
    then show False using v(2) p(2) k(2) by simp
  qed
  have "p \<in> set (knot_range ckv c_low c_high)"
    using knot_range_nth [OF lo hi r(2)] k(2) by simp
  then have "knot_multiplicity (knot_range ckv c_low c_high) (fst p) = unat (snd p)"
    by (rule knot_multiplicity_member [OF knot_range_sorted [OF sc]])
  moreover have "knot_multiplicity ckv (fst p) = unat (snd p)"
    by (rule knot_multiplicity_member [OF sc p(1)])
  ultimately show ?thesis using p(2) by simp
qed

lemma specified_difference_range:
  fixes ckv fkv :: "('a :: linorder) gsCompactKnotVector"
  assumes c: "knots_ok ckv" and f: "knots_ok fkv"
    and al: "aligned_ranges ckv c_low c_high fkv f_low f_high"
  shows "specified_difference (knot_range ckv c_low c_high) fkv f_low f_high =
         specified_difference ckv fkv f_low f_high"
proof -
  have sc: "sorted_wrt (<) (map fst ckv)" using c by (simp add: knots_ok_def)
  have sf: "sorted_wrt (<) (map fst fkv)" using f by (simp add: knots_ok_def)
  have cl: "unat c_low \<le> unat c_high" and ch: "unat c_high < length ckv"
    and fh: "unat f_high < length fkv"
    and start: "fst (ckv ! unat c_low) = fst (fkv ! unat f_low)"
    and ends: "fst (ckv ! unat c_high) = fst (fkv ! unat f_high)"
    using al by (simp_all add: aligned_ranges_def word_le_nat_alt)
  have "\<forall>p \<in> set (knot_range fkv f_low f_high).
      knot_multiplicity (knot_range ckv c_low c_high) (fst p) = knot_multiplicity ckv (fst p)"
  proof
    fix p assume "p \<in> set (knot_range fkv f_low f_high)"
    then obtain j where j: "unat f_low \<le> j" "j \<le> unat f_high" "fkv ! j = p"
      using knot_range_index [of p fkv f_low f_high] by auto
    have "fst (fkv ! unat f_low) \<le> fst p"
      using knots_nth_le [OF sf, of "unat f_low" j] j fh by simp
    moreover have "fst p \<le> fst (fkv ! unat f_high)"
      using knots_nth_le [OF sf, of j "unat f_high"] j fh by simp
    ultimately show "knot_multiplicity (knot_range ckv c_low c_high) (fst p) =
        knot_multiplicity ckv (fst p)"
      using knot_multiplicity_range [OF sc cl ch, of "fst p"] start ends by simp
  qed
  then show ?thesis
    unfolding specified_difference_def
    by (intro arg_cong [of _ _ concat] map_cong) (auto simp: case_prod_beta)
qed

text \<open>
  Claim C5, as amended. Let both knot vectors list their unique knots in strictly
  increasing order, let every coarse knot with index in \<open>[c_low, c_high]\<close> be a fine knot
  with index in \<open>[f_low, f_high]\<close>, and let the two index ranges begin and end at the same
  knot values. Then \<^verbatim>\<open>_differenceBetweenKnotVectors\<close> returns, having appended to
  \<open>knots\<close> exactly the fine knots with unique-value index in \<open>[f_low, f_high]\<close>, in
  nondecreasing order, each as many times as its multiplicity in the fine vector exceeds
  its multiplicity in the coarse vector (its full multiplicity when the coarse vector
  does not have it). It makes no difference here whether the multiplicity is taken in
  the whole coarse vector or in its inspected range.
\<close>

theorem differenceBetweenKnotVectors_aligned:
  fixes ckv fkv :: "('a :: linorder) gsCompactKnotVector"
  assumes c: "knots_ok ckv" and f: "knots_ok fkv"
    and al: "aligned_ranges ckv c_low c_high fkv f_low f_high"
  shows "differenceBetweenKnotVectors ckv c_low c_high fkv f_low f_high knots =
           Some (Inr (knots @ specified_difference ckv fkv f_low f_high)) \<and>
         sorted (specified_difference ckv fkv f_low f_high) \<and>
         specified_difference (knot_range ckv c_low c_high) fkv f_low f_high =
           specified_difference ckv fkv f_low f_high"
proof -
  have sc: "sorted_wrt (<) (map fst ckv)" and lc: "length ckv < 2 ^ 32"
    using c by (simp_all add: knots_ok_def)
  have sf: "sorted_wrt (<) (map fst fkv)" and lf: "length fkv < 2 ^ 32"
    using f by (simp_all add: knots_ok_def)
  have cl: "unat c_low \<le> unat c_high" and ch: "unat c_high < length ckv"
    and fl: "unat f_low \<le> unat f_high" and fh: "unat f_high < length fkv"
    and sub: "fst ` set (knot_range ckv c_low c_high) \<subseteq> fst ` set (knot_range fkv f_low f_high)"
    and start: "fst (ckv ! unat c_low) = fst (fkv ! unat f_low)"
    and ends: "fst (ckv ! unat c_high) = fst (fkv ! unat f_high)"
    using al by (simp_all add: aligned_ranges_def word_le_nat_alt)
  have bound: "unat f_low \<le> unat f_high + 1" using fl by simp
  have inv: "unat c_low \<le> unat c_high \<and>
         (\<forall>k. unat c_low \<le> k \<and> k \<le> unat c_high \<longrightarrow>
              (\<exists>j. unat f_low \<le> j \<and> j \<le> unat f_high \<and> fst (ckv ! k) = fst (fkv ! j))) \<and>
         (\<forall>k < unat c_low. fst (ckv ! k) < fst (fkv ! unat f_low))"
  proof (intro conjI allI impI)
    show "unat c_low \<le> unat c_high" by (rule cl)
  next
    fix k assume k: "unat c_low \<le> k \<and> k \<le> unat c_high"
    then have "ckv ! k \<in> set (knot_range ckv c_low c_high)"
      using knot_range_nth [of c_low k c_high ckv] ch by simp
    then have "fst (ckv ! k) \<in> fst ` set (knot_range fkv f_low f_high)"
      using sub by auto
    then obtain p where p: "p \<in> set (knot_range fkv f_low f_high)" "fst (ckv ! k) = fst p"
      by (rule imageE)
    from knot_range_index [OF p(1)] p(2)
    show "\<exists>j. unat f_low \<le> j \<and> j \<le> unat f_high \<and> fst (ckv ! k) = fst (fkv ! j)"
      by auto
  next
    fix k assume "k < unat c_low"
    then have "fst (ckv ! k) < fst (ckv ! unat c_low)"
      using knots_nth_less [OF sc, of k "unat c_low"] cl ch by simp
    then show "fst (ckv ! k) < fst (fkv ! unat f_low)" using start by simp
  qed
  have run: "differenceBetweenKnotVectors ckv c_low c_high fkv f_low f_high knots =
      Some (Inr (knots @ specified_difference ckv fkv f_low f_high))"
    unfolding differenceBetweenKnotVectors_def specified_difference_def knot_range_def
    by (rule difference_loop_correct [OF sc sf fh lf ch lc ends bound inv])
  have "sorted (map fst (knot_range fkv f_low f_high))"
    unfolding knot_range_def
    using strict_sorted_imp_sorted [OF sf]
    by (simp flip: take_map drop_map)
  then have "sorted (specified_difference ckv fkv f_low f_high)"
    unfolding specified_difference_def by (rule sorted_replicated)
  then show ?thesis using run specified_difference_range [OF c f al] by simp
qed

theorem differenceBetweenKnotVectors_aligned_witness:
  "knots_ok example_ckv \<and> knots_ok example_fkv \<and>
   aligned_ranges example_ckv 1 2 example_fkv 2 4 \<and>
   differenceBetweenKnotVectors example_ckv 1 2 example_fkv 2 4 [7] = Some (Inr [7, 2, 3]) \<and>
   specified_difference example_ckv example_fkv 2 4 = [2, 3]"
proof -
  have c: "knots_ok example_ckv" by (simp add: knots_ok_def example_ckv_def)
  have f: "knots_ok example_fkv" by (simp add: knots_ok_def example_fkv_def)
  have al: "aligned_ranges example_ckv 1 2 example_fkv 2 4"
    by (simp add: aligned_ranges_def knot_range_def example_ckv_def example_fkv_def)
  have sp: "specified_difference example_ckv example_fkv 2 4 = [2, 3]"
    by (simp add: specified_difference_def knot_range_def knot_multiplicity_def
        example_ckv_def example_fkv_def)
  from differenceBetweenKnotVectors_aligned [OF c f al, of "[7]"]
  show ?thesis using c f al unfolding sp by simp
qed

text \<open>
  Without the alignment the claim fails. The coarse vector 0, 2, 4 is nested in the fine
  vector 0, 1, 2, 3, 4, and so is its inspected range \<open>[1, 1]\<close> in the inspected range
  \<open>[0, 4]\<close> of the fine vector. The function starts comparing at the coarse knot 2 and
  goes on to the coarse knot 4, beyond \<^verbatim>\<open>c_high\<close>: it appends the knot 0 three times
  although the coarse vector has it with the same multiplicity, and it does not append
  the knot 4. The result is neither the difference with the whole coarse vector nor the
  difference with its inspected range.
\<close>

theorem differenceBetweenKnotVectors_counterexample:
  "knots_ok example_ckv \<and> knots_ok example_fkv \<and>
   fst ` set example_ckv \<subseteq> fst ` set example_fkv \<and>
   fst ` set (knot_range example_ckv 1 1) \<subseteq> fst ` set (knot_range example_fkv 0 4) \<and>
   differenceBetweenKnotVectors example_ckv 1 1 example_fkv 0 4 [] = Some (Inr [0, 0, 0, 1, 2, 3]) \<and>
   differenceBetweenKnotVectors example_ckv 1 1 example_fkv 0 4 [] \<noteq>
     Some (Inr ([] @ specified_difference example_ckv example_fkv 0 4)) \<and>
   specified_difference example_ckv example_fkv 0 4 = [1, 2, 3] \<and>
   specified_difference (knot_range example_ckv 1 1) example_fkv 0 4 = [0, 0, 0, 1, 2, 3, 4, 4, 4]"
proof -
  have r3: "\<And>x :: int. replicate 3 x = [x, x, x]" by (simp add: numeral_3_eq_3)
  show ?thesis
    by (simp add: knots_ok_def differenceBetweenKnotVectors_def difference_loop.simps uValue_def
      u_multiplicityIndex_def at_vec_def specified_difference_def knot_range_def
      knot_multiplicity_def example_ckv_def example_fkv_def r3)
qed

text \<open>
  When the fine range goes on after the last knot of the coarse vector, the function
  reads the coarse vector past its end.
\<close>

lemma differenceBetweenKnotVectors_reads_past_coarse_end:
  "differenceBetweenKnotVectors [(0, 1), (2, 1)] 0 1 [(0, 1), (1, 1), (2, 1), (3 :: int, 1)] 0 3 [] =
     Some (Inl OutOfRange)"
  by (simp add: differenceBetweenKnotVectors_def difference_loop.simps uValue_def
      u_multiplicityIndex_def at_vec_def)

subsection \<open>Lazy creation of levels\<close>

lemma length_append_levels: "length (append_levels refine n bases) = length bases + n"
  by (induction n arbitrary: bases) simp_all

lemma take_append_levels: "take (length bases) (append_levels refine n bases) = bases"
proof (induction n arbitrary: bases)
  case 0
  then show ?case by simp
next
  case (Suc n)
  have "take (length bases) (append_levels refine n (bases @ [refine (last bases)])) =
      take (length bases) (take (length (bases @ [refine (last bases)]))
        (append_levels refine n (bases @ [refine (last bases)])))"
    by simp
  also have "\<dots> = take (length bases) (bases @ [refine (last bases)])"
    by (simp only: Suc.IH)
  finally show ?case by simp
qed

lemma length_createMoreLevels: "length bases \<le> length (createMoreLevels refine numLevels bases)"
  by (simp add: createMoreLevels_def length_append_levels)

lemma take_createMoreLevels:
  "take (length bases) (createMoreLevels refine numLevels bases) = bases"
  by (simp add: createMoreLevels_def take_append_levels)

lemma needLevel_available:
  "maxLevel < int (length bases) \<Longrightarrow> needLevel refine maxLevel bases = bases"
  by (simp add: needLevel_def)

lemma length_needLevel: "length bases \<le> length (needLevel refine maxLevel bases)"
  by (simp add: needLevel_def Let_def length_createMoreLevels)

lemma take_needLevel: "take (length bases) (needLevel refine maxLevel bases) = bases"
  by (simp add: needLevel_def Let_def take_createMoreLevels)

lemma needLevel_enough:
  "bases \<noteq> [] \<Longrightarrow> maxLevel < int (length (needLevel refine maxLevel bases))"
  by (simp add: needLevel_def Let_def createMoreLevels_def length_append_levels)

lemma needLevel_twice:
  "needLevel refine maxLevel (needLevel refine maxLevel bases) = needLevel refine maxLevel bases"
proof (cases "bases = []")
  case True
  then show ?thesis by (simp add: needLevel_def Let_def createMoreLevels_def)
next
  case False
  then show ?thesis by (simp add: needLevel_available needLevel_enough)
qed

lemma sint_le_uint: "sint (i :: unsigned) \<le> uint i"
proof -
  have "(0 :: int) \<le> uint i" by simp
  moreover have "- (2 ^ (LENGTH(32) - Suc 0)) \<le> (0 :: int)" by simp
  ultimately have "- (2 ^ (LENGTH(32) - Suc 0)) \<le> uint i" by (rule order_trans [rotated])
  then show ?thesis
    by (simp only: sint_uint signed_take_bit_int_less_eq_self_iff)
qed

lemma tensorLevel_available:
  assumes "unat i < length bases"
  shows "tensorLevel refine i bases = (bases, Inr (bases ! unat i))"
proof -
  have "int (unat i) < int (length bases)" using assms by (simp only: of_nat_less_iff)
  then have "uint i < int (length bases)" by simp
  then have "sint i < int (length bases)" using sint_le_uint [of i] by linarith
  then show ?thesis using assms by (simp add: tensorLevel_def needLevel_available at_vec_def)
qed

text \<open>
  Claim C9 (lazy level creation is idempotent and monotonic). \<^verbatim>\<open>needLevel(n)\<close> for an
  available level \<open>n\<close> leaves the sequence of per-level bases as it is, and calling it a
  second time with the same argument changes nothing more. Neither \<^verbatim>\<open>needLevel\<close> nor
  \<^verbatim>\<open>createMoreLevels\<close> shrinks the sequence: its length does not decrease and the
  levels it had stay in place. \<^verbatim>\<open>tensorLevel(i)\<close> for an available level returns
  \<^verbatim>\<open>m_bases[i]\<close> and leaves the sequence unchanged.
\<close>

theorem needLevel_idempotent_monotonic:
  "(maxLevel < int (length bases) \<longrightarrow> needLevel refine maxLevel bases = bases) \<and>
   needLevel refine maxLevel (needLevel refine maxLevel bases) = needLevel refine maxLevel bases \<and>
   length bases \<le> length (needLevel refine maxLevel bases) \<and>
   length bases \<le> length (createMoreLevels refine numLevels bases) \<and>
   take (length bases) (needLevel refine maxLevel bases) = bases \<and>
   take (length bases) (createMoreLevels refine numLevels bases) = bases \<and>
   (unat i < length bases \<longrightarrow> tensorLevel refine i bases = (bases, Inr (bases ! unat i)))"
  using needLevel_available [of maxLevel bases refine] needLevel_twice [of refine maxLevel bases]
    length_needLevel [of bases refine maxLevel] length_createMoreLevels [of bases refine numLevels]
    take_needLevel [of bases refine maxLevel] take_createMoreLevels [of bases refine numLevels]
    tensorLevel_available [of i bases refine]
  by simp

theorem needLevel_idempotent_monotonic_witness:
  "(1 :: int) < int (length [linear_basis 3, linear_basis 6]) \<and>
   needLevel halve 1 [linear_basis 3, linear_basis 6] = [linear_basis 3, linear_basis 6] \<and>
   unat (1 :: unsigned) < length [linear_basis 3, linear_basis 6] \<and>
   tensorLevel halve 1 [linear_basis 3, linear_basis 6] =
     ([linear_basis 3, linear_basis 6], Inr (linear_basis 6)) \<and>
   length (needLevel halve 3 [linear_basis 3, linear_basis 6]) = 4"
proof -
  have a: "(1 :: int) < int (length [linear_basis 3, linear_basis 6])" by simp
  have b: "unat (1 :: unsigned) < length [linear_basis 3, linear_basis 6]" by simp
  have c: "length (needLevel halve 3 [linear_basis 3, linear_basis 6]) = 4"
    by (simp add: needLevel_def createMoreLevels_def length_append_levels)
  from needLevel_idempotent_monotonic [of 1 "[linear_basis 3, linear_basis 6]" halve 0 1]
  show ?thesis using a b c by simp
qed

subsection \<open>Box insertion and structure update\<close>

lemma insertBox_Inr:
  assumes "insertBox n k1 k2 lvl t = Inr t1"
  shows "lvl + 1 \<le> n" and
    "t1 = t\<lparr>cell_level :=
              (\<lambda>c. if in_box (scaled t lvl k1) (scaled t lvl k2) c \<and> cell_level t c < lvl
                   then lvl else cell_level t c),
            max_ins_level := max (max_ins_level t) lvl\<rparr>"
  using assms by (simp_all add: insertBox_def split: if_splits)

lemma insertBox_twice:
  assumes "insertBox n k1 k2 lvl t = Inr t1" and "n \<le> n'"
  shows "insertBox n' k1 k2 lvl t1 = Inr t1"
proof -
  note a = insertBox_Inr [OF assms(1)]
  have sc: "scaled t1 lvl = scaled t lvl"
    by (rule ext) (simp add: scaled_def a(2))
  have cl: "(\<lambda>c. if in_box (scaled t1 lvl k1) (scaled t1 lvl k2) c \<and> cell_level t1 c < lvl
                   then lvl else cell_level t1 c) = cell_level t1"
    by (rule ext) (simp add: sc, simp add: a(2))
  have mx: "max (max_ins_level t1) lvl = max_ins_level t1" by (simp add: a(2))
  have "lvl + 1 \<le> n'" using a(1) assms(2) by simp
  then show ?thesis
    unfolding insertBox_def cl mx by simp
qed

lemma update_structure_tree: "m_tree (update_structure refine h) = m_tree h"
  by (simp add: update_structure_def Let_def)

lemma update_structure_bases:
  "m_bases (update_structure refine h) =
     needLevel refine (int (max_ins_level (m_tree h))) (m_bases h)"
  by (simp add: update_structure_def Let_def)

lemma update_structure_twice:
  "update_structure refine (update_structure refine h) = update_structure refine h"
  by (simp add: update_structure_def Let_def needLevel_twice del: upt_Suc)

text \<open>
  Claim C8 (idempotent re-insertion). When a box has been inserted at a level, with the
  structure update that follows every insertion, inserting the identical box at the same
  level once more succeeds and gives the same basis again: the domain tree, all
  characteristic matrices, the offset table and with it \<^verbatim>\<open>size()\<close>, and the per-level bases
  are unchanged.
\<close>

theorem refine_box_idempotent:
  assumes "refine_box refine k1 k2 lvl h = Inr h1"
  shows "refine_box refine k1 k2 lvl h1 = Inr h1"
proof -
  obtain t1 where t1: "insertBox (length (m_bases h)) k1 k2 lvl (m_tree h) = Inr t1"
    and h1: "h1 = update_structure refine (h\<lparr>m_tree := t1\<rparr>)"
    using assms by (auto simp: refine_box_def insert_box_def split: sum.splits)
  have tree: "m_tree h1 = t1" by (simp add: h1 update_structure_tree)
  have "length (m_bases h) \<le> length (m_bases h1)"
    by (simp add: h1 update_structure_bases length_needLevel)
  then have ins: "insertBox (length (m_bases h1)) k1 k2 lvl (m_tree h1) = Inr t1"
    unfolding tree by (rule insertBox_twice [OF t1])
  have same: "h1\<lparr>m_tree := t1\<rparr> = h1" using tree by simp
  have "refine_box refine k1 k2 lvl h1 = Inr (update_structure refine h1)"
    by (simp add: refine_box_def insert_box_def ins same)
  also have "update_structure refine h1 = h1"
    unfolding h1 by (rule update_structure_twice)
  finally show ?thesis .
qed


lemma example_basis_bases: "m_bases example_basis = [linear_basis 3, linear_basis 6]"
  by (simp add: example_basis_def update_structure_def Let_def example_tree_def needLevel_def)

lemma example_basis_tree: "m_tree example_basis = example_tree"
  by (simp add: example_basis_def update_structure_tree)

lemma example_once_eq: "refine_box halve [0] [1] 1 example_basis = Inr example_once"
  by (simp add: example_once_def refine_box_def insert_box_def insertBox_def example_basis_bases)

lemma example_once_tree:
  "m_tree example_once = example_tree\<lparr>cell_level := (\<lambda>c. if c = [0] then 1 else 0), max_ins_level := 1\<rparr>"
  by (simp add: example_once_def refine_box_def insert_box_def insertBox_def example_basis_bases
      example_basis_tree update_structure_tree example_tree_def in_box_def scaled_def
      list_all2_Cons1 list_all2_Cons2 fun_eq_iff)

lemma example_once_xmatrix: "m_xmatrix example_once = [[0, 1, 2, 3], [0]]"
  by code_simp

lemma example_once_size: "size_htb example_once = Inr 5"
  by code_simp



theorem refine_box_idempotent_witness:
  "refine_box halve [0] [1] 1 example_basis = Inr example_once \<and>
   refine_box halve [0] [1] 1 example_once = Inr example_once \<and>
   m_xmatrix example_once = [[0, 1, 2, 3], [0]] \<and> size_htb example_once = Inr 5"
  using refine_box_idempotent [OF example_once_eq] example_once_eq example_once_xmatrix
    example_once_size
  by simp



















lemma insertBox_levels_bounded:
  assumes "insertBox n k1 k2 lvl t = Inr t1" "levels_bounded t"
  shows "levels_bounded t1"
proof -
  note a = insertBox_Inr [OF assms(1)]
  have d: "domain_cells t1 = domain_cells t" by (simp add: a(2) domain_cells_def)
  have "\<forall>c \<in> set (domain_cells t). cell_level t1 c \<le> max_ins_level t1"
  proof
    fix c assume "c \<in> set (domain_cells t)"
    then have "cell_level t c \<le> max_ins_level t"
      using assms(2) by (simp add: levels_bounded_def list_all_iff)
    then show "cell_level t1 c \<le> max_ins_level t1" by (auto simp: a(2))
  qed
  then show ?thesis by (simp add: levels_bounded_def list_all_iff d)
qed





text \<open>The structure update establishes the offset table that the index queries rely on,
  as long as the number of selected functions fits into \<^verbatim>\<open>unsigned\<close>.\<close>

lemma prefix_sums_bounded:
  assumes "x \<in> set (prefix_sums ns)"
  shows "x \<le> sum_list ns"
proof -
  have "x \<in> (\<lambda>l. sum_list (take l ns)) ` set [0..<length ns + 1]"
    using assms unfolding prefix_sums_def by (simp only: set_map)
  then obtain l where x: "x = sum_list (take l ns)" by (rule imageE)
  have "sum_list (take l ns) \<le> sum_list (take (max l (length ns)) ns)"
    by (rule sum_list_take_mono) simp
  then show ?thesis using x by simp
qed

lemma unat_word_of_nat_list:
  assumes "\<forall>x \<in> set xs. x < 2 ^ 32"
  shows "map unat (map word_of_nat xs :: unsigned list) = xs"
  using assms by (induction xs) (simp_all add: unat_of_nat)

lemma update_structure_offsets_ok:
  assumes "sum_list (map length (m_xmatrix (update_structure refine h))) < 2 ^ 32"
  shows "offsets_ok (update_structure refine h)"
proof -
  define ns where "ns = map length (m_xmatrix (update_structure refine h))"
  have off: "m_xmatrix_offset (update_structure refine h) = map word_of_nat (prefix_sums ns)"
    by (simp add: ns_def update_structure_def Let_def comp_def del: upt_Suc)
  have "\<forall>x \<in> set (prefix_sums ns). x < 2 ^ 32"
  proof
    fix x assume "x \<in> set (prefix_sums ns)"
    then have "x \<le> sum_list ns" by (rule prefix_sums_bounded)
    then show "x < 2 ^ 32" using assms by (simp add: ns_def)
  qed
  then have "map unat (map word_of_nat (prefix_sums ns) :: unsigned list) = prefix_sums ns"
    by (rule unat_word_of_nat_list)
  then show ?thesis unfolding offsets_ok_def off ns_def by simp
qed

subsection \<open>The constructors\<close>

text \<open>The loop over the flat vector of boxes stays inside the vector.\<close>

lemma flat_box_indices_in_range:
  assumes "i < length boxes div (2 * d + 1)" "j < d"
  shows "i * (2 * d + 1) < length boxes" "(2 * d + 1) * i + j + 1 < length boxes"
    "(2 * d + 1) * i + j + d + 1 < length boxes"
proof -
  have "Suc i \<le> length boxes div (2 * d + 1)" using assms(1) by simp
  then have "Suc i * (2 * d + 1) \<le> length boxes div (2 * d + 1) * (2 * d + 1)"
    by (rule mult_le_mono1)
  also have "\<dots> \<le> length boxes" by (rule div_times_less_eq_dividend)
  finally have a: "(2 * d + 1) * i + (2 * d + 1) \<le> length boxes" by (simp add: algebra_simps)
  show "i * (2 * d + 1) < length boxes" using a by (simp add: algebra_simps)
  show "(2 * d + 1) * i + j + 1 < length boxes" using a assms(2) by simp
  show "(2 * d + 1) * i + j + d + 1 < length boxes" using a assms(2) by simp
qed

text \<open>The assertions that the constructors do make, in the order of the source.\<close>

lemma ctor_plain_asserts:
  "nlevels \<le> 0 \<Longrightarrow> ctor_plain M tbasis nlevels = Inl (AssertFailed ''Invalid number of levels.'')"
  by (simp add: ctor_plain_def GISMO_ASSERT_def)

lemma ctor_flat_asserts:
  "nlevels \<le> 0 \<Longrightarrow>
     ctor_flat M d tbasis nlevels boxes = Inl (AssertFailed ''Invalid number of levels.'')"
  "0 < nlevels \<Longrightarrow> length boxes mod (2 * d + 1) \<noteq> 0 \<Longrightarrow>
     ctor_flat M d tbasis nlevels boxes = Inl (AssertFailed
       ''The points did not define boxes properly. The basis was created without any domain structure.'')"
  by (simp_all add: ctor_flat_def GISMO_ASSERT_def)

lemma ctor_boxes_asserts:
  "rows boxes \<noteq> d \<Longrightarrow>
     ctor_boxes M d tbasis nlevels boxes =
       Inl (AssertFailed ''Points in boxes need to be of dimension d.'')"
  "rows boxes = d \<Longrightarrow> cols boxes mod 2 \<noteq> 0 \<Longrightarrow>
     ctor_boxes M d tbasis nlevels boxes = Inl (AssertFailed
       ''Each box needs two corners but you don't provied gsHTensorBasis constructor with them.'')"
  "rows boxes = d \<Longrightarrow> cols boxes mod 2 = 0 \<Longrightarrow> nlevels \<le> 0 \<Longrightarrow>
     ctor_boxes M d tbasis nlevels boxes = Inl (AssertFailed ''Invalid number of levels.'')"
  by (simp_all add: ctor_boxes_def GISMO_ASSERT_def)

lemma ctor_levels_asserts:
  "rows boxes \<noteq> d \<Longrightarrow>
     ctor_levels M d tbasis nlevels boxes levels =
       Inl (AssertFailed ''Points in boxes need to be of dimension d.'')"
  "rows boxes = d \<Longrightarrow> cols boxes mod 2 \<noteq> 0 \<Longrightarrow>
     ctor_levels M d tbasis nlevels boxes levels = Inl (AssertFailed
       ''Each box needs two corners but you don't provied gsHTensorBasis constructor with them.'')"
  by (simp_all add: ctor_levels_def GISMO_ASSERT_def)

text \<open>
  Claim C7 (every constructor asserts on a level count \<open>nlevels \<le> 0\<close>, on a flat box
  vector whose length is not a multiple of \<open>2d + 1\<close>, and on a box matrix with a row count
  other than \<open>d\<close> or an odd column count). The three constructors above do. The constructor
  that takes the boxes with explicit levels checks the box matrix but never looks at
  \<open>nlevels\<close>: its result is the same for every value of \<open>nlevels\<close>, and with
  \<open>nlevels = 0\<close> it builds a basis.
\<close>

theorem ctor_levels_accepts_any_nlevels:
  "ctor_levels M d tbasis nlevels boxes levels = ctor_levels M d tbasis 1 boxes levels \<and>
   ctor_levels toy_members 1 () 0 toy_boxes [1, 2] = Inr (3, [([2], [5], 1), ([0], [5], 2)])"
proof
  show "ctor_levels M d tbasis nlevels boxes levels = ctor_levels M d tbasis 1 boxes levels"
    by (simp add: ctor_levels_def)
  show "ctor_levels toy_members 1 () 0 toy_boxes [1, 2] = Inr (3, [([2], [5], 1), ([0], [5], 2)])"
    by code_simp
qed

lemma loop_states_spec:
  assumes "box_loop steps h0 = Inr h"
  shows "length (loop_states steps h0) = length steps + 1 \<and>
    loop_states steps h0 ! 0 = h0 \<and>
    loop_states steps h0 ! length steps = h \<and>
    (\<forall>i < length steps. (steps ! i) (loop_states steps h0 ! i) = Inr (loop_states steps h0 ! (i + 1)))"
  using assms
proof (induction steps arbitrary: h0)
  case Nil
  then show ?case by simp
next
  case (Cons step steps)
  then obtain h' where s: "step h0 = Inr h'" and r: "box_loop steps h' = Inr h"
    by (auto split: sum.splits)
  note ih = Cons.IH [OF r]
  have ls: "loop_states (step # steps) h0 = h0 # loop_states steps h'" by (simp add: s)
  note [simp del] = loop_states.simps(2)
  have "\<forall>i < length (step # steps).
      ((step # steps) ! i) (loop_states (step # steps) h0 ! i) =
        Inr (loop_states (step # steps) h0 ! (i + 1))"
  proof (intro allI impI)
    fix i assume i: "i < length (step # steps)"
    show "((step # steps) ! i) (loop_states (step # steps) h0 ! i) =
        Inr (loop_states (step # steps) h0 ! (i + 1))"
    proof (cases i)
      case 0
      then show ?thesis using s ih by (simp add: ls)
    next
      case (Suc k)
      then show ?thesis unfolding ls using i ih by simp
    qed
  qed
  then show ?case using ih by (simp add: ls)
qed

lemma box_iteration_Inr:
  assumes "box_iteration M d boxes i h = Inr h'"
  shows "0 \<le> query_level M d boxes i h + 1 \<and>
    query_level M d boxes i h + 1 < int (call_bases_size M h) \<and>
    h' = inserted_one_finer M d boxes i h"
  using assms
  by (simp add: box_iteration_def query_level_def inserted_one_finer_def Let_def
      split: if_splits)

text \<open>
  The loop of the constructor that takes the boxes as physical coordinate ranges, when it
  runs to its end: the object returned is reached from the initialized one by one step per
  box, and in each step one more than the result of \<^verbatim>\<open>query3\<close> was an instantiated level.
\<close>

lemma ctor_boxes_steps:
  assumes "ctor_boxes M d tbasis nlevels boxes = Inr h"
  shows "length (ctor_boxes_states M d tbasis boxes) = cols boxes div 2 + 1 \<and>
    ctor_boxes_states M d tbasis boxes ! 0 = call_initialize_class M tbasis \<and>
    ctor_boxes_states M d tbasis boxes ! (cols boxes div 2) = h \<and>
    (\<forall>i < cols boxes div 2.
        0 \<le> query_level M d boxes i (ctor_boxes_states M d tbasis boxes ! i) + 1 \<and>
        query_level M d boxes i (ctor_boxes_states M d tbasis boxes ! i) + 1
          < int (call_bases_size M (ctor_boxes_states M d tbasis boxes ! i)) \<and>
        ctor_boxes_states M d tbasis boxes ! (i + 1) =
          inserted_one_finer M d boxes i (ctor_boxes_states M d tbasis boxes ! i))"
proof -
  define steps where "steps = map (box_iteration M d boxes) [0..<cols boxes div 2]"
  have run: "box_loop steps (call_initialize_class M tbasis) = Inr h"
    using assms by (simp add: ctor_boxes_def GISMO_ASSERT_def steps_def split: if_splits)
  note sp = loop_states_spec [OF run]
  have st: "ctor_boxes_states M d tbasis boxes = loop_states steps (call_initialize_class M tbasis)"
    by (simp add: ctor_boxes_states_def steps_def)
  have len: "length steps = cols boxes div 2" by (simp add: steps_def)
  have each: "\<forall>i < cols boxes div 2.
        0 \<le> query_level M d boxes i (ctor_boxes_states M d tbasis boxes ! i) + 1 \<and>
        query_level M d boxes i (ctor_boxes_states M d tbasis boxes ! i) + 1
          < int (call_bases_size M (ctor_boxes_states M d tbasis boxes ! i)) \<and>
        ctor_boxes_states M d tbasis boxes ! (i + 1) =
          inserted_one_finer M d boxes i (ctor_boxes_states M d tbasis boxes ! i)"
  proof (intro allI impI)
    fix i assume i: "i < cols boxes div 2"
    then have "(steps ! i) (ctor_boxes_states M d tbasis boxes ! i) =
        Inr (ctor_boxes_states M d tbasis boxes ! (i + 1))"
      using sp len by (simp add: st)
    moreover have "steps ! i = box_iteration M d boxes i" using i by (simp add: steps_def)
    ultimately have "box_iteration M d boxes i (ctor_boxes_states M d tbasis boxes ! i) =
        Inr (ctor_boxes_states M d tbasis boxes ! (i + 1))" by simp
    then show "0 \<le> query_level M d boxes i (ctor_boxes_states M d tbasis boxes ! i) + 1 \<and>
        query_level M d boxes i (ctor_boxes_states M d tbasis boxes ! i) + 1
          < int (call_bases_size M (ctor_boxes_states M d tbasis boxes ! i)) \<and>
        ctor_boxes_states M d tbasis boxes ! (i + 1) =
          inserted_one_finer M d boxes i (ctor_boxes_states M d tbasis boxes ! i)"
      by (rule box_iteration_Inr)
  qed
  show ?thesis using sp each unfolding st len by simp
qed

text \<open>
  A run that reaches the end: two boxes, \<open>[1, 2]\<close> and \<open>[0, 1]\<close>, with three instantiated
  levels. The first is inserted at level 1 and the second at level 2, with the corners in
  the knot-span indices of these levels.
\<close>

lemma ctor_boxes_two_boxes:
  "ctor_boxes toy_members 1 () 3 toy_boxes = Inr (3, [([2], [5], 1), ([0], [5], 2)]) \<and>
   ctor_boxes_states toy_members 1 () toy_boxes =
     [(3, []), (3, [([2], [5], 1)]), (3, [([2], [5], 1), ([0], [5], 2)])]"
  by code_simp

text \<open>
  The loop body reads \<^verbatim>\<open>m_bases[level+1]\<close> without making that level available first.
  Whenever \<^verbatim>\<open>query3\<close> answers with the finest instantiated level, the bound it is given,
  the read is past the end of \<^verbatim>\<open>m_bases\<close>, whatever the other member functions do.
\<close>

lemma box_iteration_missing_level:
  assumes "call_bases_size M h \<noteq> 0"
    and "int (call_bases_size M h) \<le> query_level M d boxes i h + 1"
  shows "box_iteration M d boxes i h = Inl OutOfRange"
  using assms by (simp add: box_iteration_def query_level_def Let_def)

text \<open>
  Claim C4 (each box given in physical coordinates is inserted one level finer than the
  result of \<^verbatim>\<open>query3\<close>, with its corners in the knot-span indices of that finer level).
  With three instantiated levels and three boxes, each inside the one before, the first
  box is inserted at level 1 and the second at level 2, as the claim says. For the third
  box \<^verbatim>\<open>query3\<close> gives level 2, the finest instantiated one, and the constructor reads
  \<^verbatim>\<open>m_bases[3]\<close> past the end of the vector: the box is not inserted.
\<close>

theorem ctor_boxes_reads_missing_level:
  "ctor_boxes_states toy_members 1 () toy_nested_boxes =
     [(3, []), (3, [([0], [9], 1)]), (3, [([0], [9], 1), ([4], [13], 2)])] \<and>
   call_bases_size toy_members (3, [([0], [9], 1), ([4], [13], 2)]) = 3 \<and>
   query_level toy_members 1 toy_nested_boxes 2 (3, [([0], [9], 1), ([4], [13], 2)]) = 2 \<and>
   box_iteration toy_members 1 toy_nested_boxes 2 (3, [([0], [9], 1), ([4], [13], 2)]) =
     Inl OutOfRange \<and>
   ctor_boxes toy_members 1 () 3 toy_nested_boxes = Inl OutOfRange"
  by code_simp

subsection \<open>The structure after construction\<close>

text \<open>
  With the structure update of the previous section as the \<^verbatim>\<open>update_structure()\<close> that
  the constructors call, the first two constructors always return a basis whose structure
  is up to date, and so do the two constructors that take a box matrix when the matrix
  holds at least one box. With an empty box matrix these two never call
  \<^verbatim>\<open>update_structure()\<close>; the third returns the object as \<^verbatim>\<open>initialize_class\<close> left it.
\<close>

lemma box_loop_last:
  assumes "box_loop steps h0 = Inr h" "steps \<noteq> []"
  shows "\<exists>h'. last steps h' = Inr h"
  using assms
proof (induction steps arbitrary: h0)
  case Nil
  then show ?case by simp
next
  case (Cons step steps)
  then obtain h1 where s: "step h0 = Inr h1" and r: "box_loop steps h1 = Inr h"
    by (auto split: sum.splits)
  show ?case
  proof (cases "steps = []")
    case True
    then show ?thesis using s r by auto
  next
    case False
    then show ?thesis using Cons.IH [OF r False] by simp
  qed
qed

lemma ctor_plain_current:
  assumes "call_update_structure M = update_structure refine"
    and "ctor_plain M tbasis nlevels = Inr h"
  shows "update_structure refine h = h"
  using assms by (auto simp: ctor_plain_def update_structure_twice split: sum.splits)

lemma ctor_flat_current:
  assumes "call_update_structure M = update_structure refine"
    and "ctor_flat M d tbasis nlevels boxes = Inr h"
  shows "update_structure refine h = h"
  using assms by (auto simp: ctor_flat_def Let_def update_structure_twice split: sum.splits)

lemma ctor_boxes_current:
  assumes u: "call_update_structure M = update_structure refine"
    and run: "ctor_boxes M d tbasis nlevels boxes = Inr h" and some: "2 \<le> cols boxes"
  shows "update_structure refine h = h"
proof -
  define steps where "steps = map (box_iteration M d boxes) [0..<cols boxes div 2]"
  have ne: "steps \<noteq> []" using some by (simp add: steps_def)
  have "box_loop steps (call_initialize_class M tbasis) = Inr h"
    using run by (simp add: ctor_boxes_def GISMO_ASSERT_def steps_def split: if_splits)
  then obtain h' where l: "last steps h' = Inr h" using box_loop_last [OF _ ne] by blast
  have "last steps = box_iteration M d boxes (cols boxes div 2 - 1)"
    using ne some by (simp add: steps_def last_map)
  then have "h = inserted_one_finer M d boxes (cols boxes div 2 - 1) h'"
    using l box_iteration_Inr [of M d boxes "cols boxes div 2 - 1" h' h] by simp
  then show ?thesis by (simp add: inserted_one_finer_def u update_structure_twice)
qed

lemma ctor_levels_current:
  assumes u: "call_update_structure M = update_structure refine"
    and run: "ctor_levels M d tbasis nlevels boxes levels = Inr h" and some: "2 \<le> cols boxes"
  shows "update_structure refine h = h"
proof -
  define steps where "steps = map (level_iteration M d boxes levels) [0..<cols boxes div 2]"
  have ne: "steps \<noteq> []" using some by (simp add: steps_def)
  have "box_loop steps (call_needLevel M (sint (Max (set levels))) (call_initialize_class M tbasis))
      = Inr h"
    using run by (simp add: ctor_levels_def GISMO_ASSERT_def steps_def split: if_splits)
  then obtain h' where l: "last steps h' = Inr h" using box_loop_last [OF _ ne] by blast
  have "last steps = level_iteration M d boxes levels (cols boxes div 2 - 1)"
    using ne some by (simp add: steps_def last_map)
  then obtain h'' where "h = call_update_structure M h''"
    using l by (auto simp: level_iteration_def Let_def split: if_splits)
  then show ?thesis by (simp add: u update_structure_twice)
qed

lemma ctor_boxes_without_boxes:
  assumes "rows boxes = d" "cols boxes = 0" "0 < nlevels"
  shows "ctor_boxes M d tbasis nlevels boxes = Inr (call_initialize_class M tbasis)"
  using assms by (simp add: ctor_boxes_def GISMO_ASSERT_def)

end
